theory Spec2Isabelle
  imports Complex_Main "HOL-Library.Multiset" "HOL-Library.AList" "HOL-Library.Log_Nat"
begin

section \<open>JavaScript numbers\<close>

text \<open>
  A JavaScript \<^verbatim>\<open>number\<close> is an IEEE 754 binary64 value: NaN, an infinity, or a
  finite value, here carried as the rational it denotes. The two zeros are one value:
  the code below never divides by a zero (the divisors are guarded by \<^verbatim>\<open>> 0\<close>) and
  \<^verbatim>\<open>Math.max(x, 0)\<close> gives \<open>+0\<close> for both, so their sign is never observed.
\<close>

datatype number = NaN | NegInfinity | Num rat | PosInfinity

text \<open>
  Every arithmetic operation returns the exact result rounded to the nearest binary64
  value, ties to the one with an even significand. A positive \<open>a\<close> is written as
  \<open>m * 2 ^ e\<close> with the exponent \<open>e = max (\<lfloor>log\<^sub>2 a\<rfloor> - 52) (-1074)\<close> (53 bits of
  significand, or the fixed exponent of the subnormal range) and \<open>m\<close> the scaled value
  rounded to an integer. The result overflows to an infinity when it needs an exponent
  above 971, that is when it reaches \<open>2 ^ 1024\<close>.
\<close>

definition roundHalfEven :: "rat \<Rightarrow> int" where
  "roundHalfEven x =
     (let f = \<lfloor>x\<rfloor>; d = x - of_int f
      in if d < 1 / 2 then f else if 1 / 2 < d then f + 1 else if even f then f else f + 1)"

definition ilog2 :: "rat \<Rightarrow> int" where
  "ilog2 a =
     (case quotient_of a of
        (p, q) \<Rightarrow> let d = bitlen p - bitlen q in if 2 powi d \<le> a then d else d - 1)"

definition exponent64 :: "rat \<Rightarrow> int" where
  "exponent64 a = max (ilog2 a - 52) (- 1074)"

definition round64 :: "rat \<Rightarrow> number" where
  "round64 x =
     (if x = 0 then Num 0
      else let a = \<bar>x\<bar>;
               e = exponent64 a;
               p = 2 powi e;
               m = roundHalfEven (a / p)
           in if 971 < e \<or> (e = 971 \<and> 2 ^ 53 \<le> m)
              then (if 0 < x then PosInfinity else NegInfinity)
              else Num (if 0 < x then of_int m * p else - (of_int m * p)))"

text \<open>
  The comparisons \<^verbatim>\<open><\<close> and \<^verbatim>\<open><=\<close> (false when a side is NaN), and
  \<^verbatim>\<open>+\<close>, \<^verbatim>\<open>*\<close> and \<^verbatim>\<open>/\<close> with their special cases.
\<close>

fun num_less :: "number \<Rightarrow> number \<Rightarrow> bool" where
  "num_less NaN b = False"
| "num_less a NaN = False"
| "num_less a NegInfinity = False"
| "num_less NegInfinity b = True"
| "num_less PosInfinity b = False"
| "num_less a PosInfinity = True"
| "num_less (Num x) (Num y) = (x < y)"

fun num_le :: "number \<Rightarrow> number \<Rightarrow> bool" where
  "num_le NaN b = False"
| "num_le a NaN = False"
| "num_le NegInfinity b = True"
| "num_le a PosInfinity = True"
| "num_le a NegInfinity = False"
| "num_le PosInfinity b = False"
| "num_le (Num x) (Num y) = (x \<le> y)"

fun num_add :: "number \<Rightarrow> number \<Rightarrow> number" where
  "num_add NaN b = NaN"
| "num_add a NaN = NaN"
| "num_add PosInfinity NegInfinity = NaN"
| "num_add NegInfinity PosInfinity = NaN"
| "num_add PosInfinity b = PosInfinity"
| "num_add a PosInfinity = PosInfinity"
| "num_add NegInfinity b = NegInfinity"
| "num_add a NegInfinity = NegInfinity"
| "num_add (Num x) (Num y) = round64 (x + y)"

fun num_mul :: "number \<Rightarrow> number \<Rightarrow> number" where
  "num_mul NaN b = NaN"
| "num_mul a NaN = NaN"
| "num_mul (Num x) (Num y) = round64 (x * y)"
| "num_mul (Num x) b = (if x = 0 then NaN else if (0 < x) = (b = PosInfinity) then PosInfinity else NegInfinity)"
| "num_mul a (Num y) = (if y = 0 then NaN else if (0 < y) = (a = PosInfinity) then PosInfinity else NegInfinity)"
| "num_mul a b = (if a = b then PosInfinity else NegInfinity)"

fun num_div :: "number \<Rightarrow> number \<Rightarrow> number" where
  "num_div NaN b = NaN"
| "num_div a NaN = NaN"
| "num_div (Num x) (Num y) =
     (if y = 0 then (if x = 0 then NaN else if 0 < x then PosInfinity else NegInfinity)
      else round64 (x / y))"
| "num_div (Num x) b = Num 0"
| "num_div a (Num y) = (if (0 \<le> y) = (a = PosInfinity) then PosInfinity else NegInfinity)"
| "num_div a b = NaN"

text \<open>
  \<^verbatim>\<open>Math.round\<close> gives the nearest integer, a half towards plus infinity (the floor
  of the value plus one half, computed exactly). \<^verbatim>\<open>Math.max\<close> and \<^verbatim>\<open>Math.min\<close>
  give NaN when an argument is NaN.
\<close>

fun Math_round :: "number \<Rightarrow> number" where
  "Math_round (Num x) = Num (of_int \<lfloor>x + 1 / 2\<rfloor>)"
| "Math_round a = a"

definition Math_max :: "number \<Rightarrow> number \<Rightarrow> number" where
  "Math_max a b = (if a = NaN \<or> b = NaN then NaN else if num_less a b then b else a)"

definition Math_min :: "number \<Rightarrow> number \<Rightarrow> number" where
  "Math_min a b = (if a = NaN \<or> b = NaN then NaN else if num_less b a then b else a)"

section \<open>Leaderboard function: the score calculator\<close>

text \<open>
  Source: \<^verbatim>\<open>supabase/functions/update-leaderboard/index.ts\<close>. The literals
  \<^verbatim>\<open>0.7\<close> and \<^verbatim>\<open>0.3\<close> are the binary64 values nearest to 7/10 and 3/10.
\<close>

definition calculateScore :: "number \<Rightarrow> number \<Rightarrow> number \<Rightarrow> number \<Rightarrow> number" where
  "calculateScore likes views maxLikes maxViews =
     (let normalizedLikes = (if num_less (Num 0) maxLikes then num_div likes maxLikes else Num 0);
          normalizedViews = (if num_less (Num 0) maxViews then num_div views maxViews else Num 0);
          score = num_mul (num_add (num_mul normalizedLikes (round64 (7 / 10)))
                                   (num_mul normalizedViews (round64 (3 / 10))))
                          (Num 100)
      in Math_min (Math_max (Math_round score) (Num 0)) (Num 100))"

text \<open>
  The value a finite number has as an integer. The scores the handler computes are
  integers between 0 and 100 (lemma \<open>videoScores_scores_exact\<close> below), and the records
  carry them as such.
\<close>

fun integerOf :: "number \<Rightarrow> int" where
  "integerOf (Num x) = \<lfloor>x\<rfloor>"
| "integerOf a = 0"

text \<open>
  Notions used to state the lemmas on rounding and on the calculator: the significand
  and the value of the rounded magnitude, the overflow test, the two normalised inputs
  and the clamped weighted score of two normalised inputs.
\<close>

definition significand64 :: "rat \<Rightarrow> int" where
  "significand64 a = roundHalfEven (a / 2 powi exponent64 a)"

definition value64 :: "rat \<Rightarrow> rat" where
  "value64 a = of_int (significand64 a) * 2 powi exponent64 a"

definition overflows64 :: "rat \<Rightarrow> bool" where
  "overflows64 a \<longleftrightarrow> 971 < exponent64 a \<or> (exponent64 a = 971 \<and> 2 ^ 53 \<le> significand64 a)"

definition normalized :: "number \<Rightarrow> number \<Rightarrow> number" where
  "normalized x maxX = (if num_less (Num 0) maxX then num_div x maxX else Num 0)"

definition clampedScore :: "number \<Rightarrow> number \<Rightarrow> number" where
  "clampedScore normalizedLikes normalizedViews =
     Math_min (Math_max (Math_round
       (num_mul (num_add (num_mul normalizedLikes (round64 (7 / 10)))
                         (num_mul normalizedViews (round64 (3 / 10))))
                (Num 100))) (Num 0)) (Num 100)"

section \<open>Leaderboard function: data\<close>

text \<open>
  The interfaces \<^verbatim>\<open>Video\<close> and \<^verbatim>\<open>UserScore\<close> of the source, the object
  literal built for every scored video (\<^verbatim>\<open>videoScores\<close>), and the rows written to
  the \<^verbatim>\<open>leaderboard\<close> table. Field names carry a prefix per record (\<open>v_\<close>,
  \<open>vs_\<close>, \<open>us_\<close>, \<open>le_\<close>, \<open>t_\<close>), since several records have fields
  of the same name.
\<close>

record UserRef =
  u_username :: "string option"
  u_avatar_url :: "string option"

record Video =
  v_id :: string
  v_title :: string
  v_likes :: int
  v_views :: int
  v_user_id :: string
  v_users :: "UserRef option"

record VideoScore =
  vs_video_id :: string
  vs_user_id :: string
  vs_title :: string
  vs_username :: string
  vs_avatar_url :: "string option"
  vs_score :: int
  vs_likes :: int
  vs_views :: int

record UserScore =
  us_user_id :: string
  us_username :: string
  us_avatar_url :: "string option"
  us_best_video_id :: string
  us_best_video_title :: string
  us_score :: int
  us_likes :: int
  us_views :: int

record LeaderboardEntry =
  le_video_id :: string
  le_score :: int
  le_rank :: int
  le_created_at :: string

record Top10Entry =
  t_rank :: int
  t_user_id :: string
  t_username :: string
  t_avatar_url :: "string option"
  t_best_video_id :: string
  t_best_video_title :: string
  t_score :: int
  t_likes :: int
  t_views :: int

section \<open>Leaderboard function: scoring every video\<close>

text \<open>
  The counts of a row are integers, which numbers represent exactly (up to \<open>2 ^ 53\<close>).
  \<^verbatim>\<open>x || 0\<close> on a number: zero (and NaN, which an integer never is) gives 0.
\<close>

definition or0 :: "int \<Rightarrow> int" where
  "or0 x = (if x = 0 then 0 else x)"

text \<open>\<^verbatim>\<open>Math.max(...xs, 1)\<close>: the largest of the values and 1.\<close>

definition Math_max_1 :: "int list \<Rightarrow> int" where
  "Math_max_1 xs = foldr max xs 1"

text \<open>
  \<^verbatim>\<open>video.users?.username || 'Anonymous'\<close>: a missing join, a null and an empty
  name all give the placeholder. \<^verbatim>\<open>video.users?.avatar_url || null\<close> likewise
  gives null.
\<close>

definition usernameOf :: "UserRef option \<Rightarrow> string" where
  "usernameOf users =
     (case users of
        None \<Rightarrow> ''Anonymous''
      | Some r \<Rightarrow> (case u_username r of
                    None \<Rightarrow> ''Anonymous''
                  | Some n \<Rightarrow> if n = [] then ''Anonymous'' else n))"

definition avatarOf :: "UserRef option \<Rightarrow> string option" where
  "avatarOf users =
     (case users of
        None \<Rightarrow> None
      | Some r \<Rightarrow> (case u_avatar_url r of
                    None \<Rightarrow> None
                  | Some a \<Rightarrow> if a = [] then None else Some a))"

definition videoScores :: "Video list \<Rightarrow> VideoScore list" where
  "videoScores videos =
     (let maxLikes = Math_max_1 (map (\<lambda>v. or0 (v_likes v)) videos);
          maxViews = Math_max_1 (map (\<lambda>v. or0 (v_views v)) videos)
      in map (\<lambda>video.
            \<lparr> vs_video_id = v_id video,
              vs_user_id = v_user_id video,
              vs_title = v_title video,
              vs_username = usernameOf (v_users video),
              vs_avatar_url = avatarOf (v_users video),
              vs_score = integerOf
                           (calculateScore (Num (of_int (or0 (v_likes video))))
                              (Num (of_int (or0 (v_views video))))
                              (Num (of_int maxLikes)) (Num (of_int maxViews))),
              vs_likes = or0 (v_likes video),
              vs_views = or0 (v_views video) \<rparr>) videos)"

section \<open>Leaderboard function: the per-user best-video reducer\<close>

text \<open>
  A JavaScript \<^verbatim>\<open>Map\<close> iterates in insertion order, and \<^verbatim>\<open>set\<close> on a key
  already present keeps the key's position. It is modelled as an association list:
  \<^const>\<open>AList.update\<close> replaces the value in place, or appends the new key at the end.
\<close>

type_synonym ('k, 'v) js_map = "('k \<times> 'v) list"

definition Map_get :: "('k, 'v) js_map \<Rightarrow> 'k \<Rightarrow> 'v option" where
  "Map_get m k = map_of m k"

definition Map_set :: "('k, 'v) js_map \<Rightarrow> 'k \<Rightarrow> 'v \<Rightarrow> ('k, 'v) js_map" where
  "Map_set m k v = AList.update k v m"

definition Map_values :: "('k, 'v) js_map \<Rightarrow> 'v list" where
  "Map_values m = map snd m"

definition toUserScore :: "VideoScore \<Rightarrow> UserScore" where
  "toUserScore video =
     \<lparr> us_user_id = vs_user_id video,
       us_username = vs_username video,
       us_avatar_url = vs_avatar_url video,
       us_best_video_id = vs_video_id video,
       us_best_video_title = vs_title video,
       us_score = vs_score video,
       us_likes = vs_likes video,
       us_views = vs_views video \<rparr>"

text \<open>The body of the \<^verbatim>\<open>forEach\<close> callback, and the loop over all scored videos.\<close>

definition bestStep :: "VideoScore \<Rightarrow> (string, UserScore) js_map \<Rightarrow> (string, UserScore) js_map" where
  "bestStep video m =
     (if (case Map_get m (vs_user_id video) of
            None \<Rightarrow> True
          | Some existingUser \<Rightarrow>
              vs_score video > us_score existingUser \<or>
              (vs_score video = us_score existingUser \<and> vs_likes video > us_likes existingUser))
      then Map_set m (vs_user_id video) (toUserScore video)
      else m)"

definition userBestVideos :: "VideoScore list \<Rightarrow> (string, UserScore) js_map" where
  "userBestVideos scores = fold bestStep scores []"

section \<open>Leaderboard function: the ranking assembler\<close>

text \<open>
  The comparator passed to \<^verbatim>\<open>sort\<close>, and \<^verbatim>\<open>Array.prototype.sort\<close> itself. The
  language standard requires the sort to be stable; with a consistent comparator its
  result is the one stable sorted arrangement, which insertion from the right computes.
\<close>

definition compareRanking :: "UserScore \<Rightarrow> UserScore \<Rightarrow> int" where
  "compareRanking a b =
     (if us_score b \<noteq> us_score a then us_score b - us_score a
      else if us_likes b \<noteq> us_likes a then us_likes b - us_likes a
      else us_views b - us_views a)"

fun insertBy :: "('a \<Rightarrow> 'a \<Rightarrow> int) \<Rightarrow> 'a \<Rightarrow> 'a list \<Rightarrow> 'a list" where
  "insertBy cmp x [] = [x]"
| "insertBy cmp x (y # ys) = (if cmp x y \<le> 0 then x # y # ys else y # insertBy cmp x ys)"

definition Array_sort :: "('a \<Rightarrow> 'a \<Rightarrow> int) \<Rightarrow> 'a list \<Rightarrow> 'a list" where
  "Array_sort cmp xs = foldr (insertBy cmp) xs []"

definition userRankings :: "(string, UserScore) js_map \<Rightarrow> UserScore list" where
  "userRankings m = Array_sort compareRanking (Map_values m)"

text \<open>
  \<^verbatim>\<open>userRankings.map((user, index) => ...)\<close>. The \<open>index\<close>-th entry takes its
  timestamp from the \<open>index\<close>-th reading of the clock.
\<close>

definition leaderboardEntries :: "(nat \<Rightarrow> string) \<Rightarrow> UserScore list \<Rightarrow> LeaderboardEntry list" where
  "leaderboardEntries clock rankings =
     map (\<lambda>(index, user).
            \<lparr> le_video_id = us_best_video_id user,
              le_score = us_score user,
              le_rank = int index + 1,
              le_created_at = clock index \<rparr>) (enumerate 0 rankings)"

definition top10 :: "UserScore list \<Rightarrow> Top10Entry list" where
  "top10 rankings =
     map (\<lambda>(index, user).
            \<lparr> t_rank = int index + 1,
              t_user_id = us_user_id user,
              t_username = us_username user,
              t_avatar_url = us_avatar_url user,
              t_best_video_id = us_best_video_id user,
              t_best_video_title = us_best_video_title user,
              t_score = us_score user,
              t_likes = us_likes user,
              t_views = us_views user \<rparr>) (enumerate 0 (take 10 rankings))"

section \<open>Leaderboard function: the request handler\<close>

text \<open>
  The handler talks to the data store three times: it selects the videos, deletes the
  rows of the \<^verbatim>\<open>leaderboard\<close> table and inserts the new rows. What the store
  answers is outside the program, so each answer is a field of the environment:
  \<^item> \<open>fetch_result\<close>: the \<^verbatim>\<open>{data, error}\<close> of the select, either an error or
    the rows (\<^verbatim>\<open>data\<close> may be null), already in the order the query asks for
    (\<^verbatim>\<open>created_at\<close> descending);
  \<^item> \<open>delete_error\<close>, \<open>insert_error\<close>: the \<^verbatim>\<open>error\<close> of the two writes. A
    statement that reports an error changes nothing in the table;
  \<^item> \<open>fresh_id\<close>: the row identifier the table gives to the \<open>i\<close>-th inserted row;
  \<^item> \<open>clock\<close>: the timestamp of the \<open>i\<close>-th \<^verbatim>\<open>new Date()\<close> of the run;
  \<^item> \<open>spread_error\<close>: what the engine does with a call that spreads \<open>n\<close>
    arguments, as \<^verbatim>\<open>Math.max(...videos.map(..), 1)\<close> does: it performs the call, or
    throws a \<^verbatim>\<open>RangeError\<close> with the given message when \<open>n\<close> is beyond what its
    stack takes.
  An error is represented by its \<^verbatim>\<open>message\<close>.

  The result of a run is the response, the statements sent to the store in order, and
  the table afterwards.
\<close>

datatype http_method = OPTIONS | POST

record Env =
  fetch_result :: "string + Video list option"
  delete_error :: "string option"
  insert_error :: "string option"
  fresh_id :: "nat \<Rightarrow> string"
  clock :: "nat \<Rightarrow> string"
  spread_error :: "nat \<Rightarrow> string option"

record LeaderboardRow =
  row_id :: string
  row_entry :: LeaderboardEntry

datatype statement =
    SelectVideos
  | DeleteLeaderboard
  | InsertLeaderboard "LeaderboardEntry list"

datatype Response =
    Preflight
  | NoVideosFound string int
  | LeaderboardUpdated string int int string "Top10Entry list"
  | InternalError string string

fun status :: "Response \<Rightarrow> nat" where
  "status Preflight = 200"
| "status (NoVideosFound message updated) = 200"
| "status (LeaderboardUpdated message updated total_users timestamp top_n) = 200"
| "status (InternalError error timestamp) = 500"

fun updated :: "Response \<Rightarrow> int option" where
  "updated (NoVideosFound message n) = Some n"
| "updated (LeaderboardUpdated message n total_users timestamp top_n) = Some n"
| "updated _ = None"

record Run =
  response :: Response
  statements :: "statement list"
  leaderboard :: "LeaderboardRow list"

text \<open>\<^verbatim>\<open>error.message || "Internal server error"\<close>\<close>

definition errorMessage :: "string \<Rightarrow> string" where
  "errorMessage message = (if message = [] then ''Internal server error'' else message)"

text \<open>
  \<^verbatim>\<open>.delete().neq('id', '00000000-0000-0000-0000-000000000000')\<close> removes every
  row whose identifier is not the nil identifier.
\<close>

definition deleteRows :: "LeaderboardRow list \<Rightarrow> LeaderboardRow list" where
  "deleteRows table = filter (\<lambda>r. \<not> (row_id r \<noteq> ''00000000-0000-0000-0000-000000000000'')) table"

definition insertRows :: "(nat \<Rightarrow> string) \<Rightarrow> LeaderboardEntry list \<Rightarrow> LeaderboardRow list \<Rightarrow> LeaderboardRow list" where
  "insertRows ids entries table =
     table @ map (\<lambda>(i, e). \<lparr> row_id = ids i, row_entry = e \<rparr>) (enumerate 0 entries)"

text \<open>
  The part of the handler after the check for an empty corpus. Every exception is
  caught by the handler's \<^verbatim>\<open>catch\<close> and answered with status 500.
\<close>

definition publish :: "Env \<Rightarrow> Video list \<Rightarrow> LeaderboardRow list \<Rightarrow> Run" where
  "publish env videos table =
     (case spread_error env (length videos + 1) of
        Some rangeError \<Rightarrow>
          \<lparr> response = InternalError (errorMessage rangeError) (clock env 0),
            statements = [SelectVideos],
            leaderboard = table \<rparr>
      | None \<Rightarrow>
          (let best = userBestVideos (videoScores videos);
               rankings = userRankings best;
               entries = leaderboardEntries (clock env) rankings;
               n = length entries
           in case delete_error env of
                Some deleteError \<Rightarrow>
                  \<lparr> response = InternalError (errorMessage deleteError) (clock env n),
                    statements = [SelectVideos, DeleteLeaderboard],
                    leaderboard = table \<rparr>
              | None \<Rightarrow>
                  (case insert_error env of
                     Some insertError \<Rightarrow>
                       \<lparr> response = InternalError (errorMessage insertError) (clock env n),
                         statements = [SelectVideos, DeleteLeaderboard, InsertLeaderboard entries],
                         leaderboard = deleteRows table \<rparr>
                   | None \<Rightarrow>
                       \<lparr> response = LeaderboardUpdated ''Leaderboard updated successfully''
                                      (int (length entries)) (int (length best)) (clock env n)
                                      (top10 rankings),
                         statements = [SelectVideos, DeleteLeaderboard, InsertLeaderboard entries],
                         leaderboard = insertRows (fresh_id env) entries (deleteRows table) \<rparr>)))"

definition serve :: "http_method \<Rightarrow> Env \<Rightarrow> LeaderboardRow list \<Rightarrow> Run" where
  "serve verb env table =
     (if verb = OPTIONS
      then \<lparr> response = Preflight, statements = [], leaderboard = table \<rparr>
      else case fetch_result env of
             Inl fetchError \<Rightarrow>
               \<lparr> response = InternalError (errorMessage fetchError) (clock env 0),
                 statements = [SelectVideos],
                 leaderboard = table \<rparr>
           | Inr None \<Rightarrow>
               \<lparr> response = NoVideosFound ''No videos found'' 0,
                 statements = [SelectVideos],
                 leaderboard = table \<rparr>
           | Inr (Some videos) \<Rightarrow>
               if length videos = 0
               then \<lparr> response = NoVideosFound ''No videos found'' 0,
                      statements = [SelectVideos],
                      leaderboard = table \<rparr>
               else publish env videos table)"

section \<open>Client: optimistic like and unlike\<close>

text \<open>
  Source: \<^verbatim>\<open>app/(tabs)/home.tsx\<close>, the \<^verbatim>\<open>likeMutation\<close> of the home screen.
  The interfaces \<^verbatim>\<open>User\<close> and \<^verbatim>\<open>DanceVideo\<close>; \<^verbatim>\<open>liked_by\<close> is optional.
\<close>

record User =
  usr_id :: string
  usr_username :: string
  usr_fullname :: string
  usr_email :: string
  usr_avatar_url :: string
  usr_created_at :: string

record DanceVideo =
  dv_id :: string
  dv_title :: string
  dv_description :: string
  dv_category :: string
  dv_video_url :: string
  dv_views :: int
  dv_likes :: int
  dv_liked_by :: "string list option"
  dv_user_id :: string
  dv_created_at :: string
  dv_user :: User

datatype action = like | dislike

text \<open>
  The function mapped over the cached videos inside \<^verbatim>\<open>setQueryData\<close>, for the
  signed-in user \<open>uid\<close>, and the updater itself (\<^verbatim>\<open>if (!old) return old\<close>).
\<close>

definition optimisticVideo :: "string \<Rightarrow> string \<Rightarrow> action \<Rightarrow> DanceVideo \<Rightarrow> DanceVideo" where
  "optimisticVideo uid ident act video =
     (if dv_id video = ident
      then (let currentLikedBy = (case dv_liked_by video of None \<Rightarrow> [] | Some l \<Rightarrow> l);
                isCurrentlyLiked = (uid \<in> set currentLikedBy)
            in if act = like \<and> \<not> isCurrentlyLiked
               then video\<lparr> dv_likes := dv_likes video + 1,
                           dv_liked_by := Some (currentLikedBy @ [uid]) \<rparr>
               else if act = dislike \<and> isCurrentlyLiked
               then video\<lparr> dv_likes := max 0 (dv_likes video - 1),
                           dv_liked_by := Some (filter (\<lambda>u. u \<noteq> uid) currentLikedBy) \<rparr>
               else video)
      else video)"

definition optimisticUpdate :: "string \<Rightarrow> string \<Rightarrow> action \<Rightarrow> DanceVideo list option \<Rightarrow> DanceVideo list option" where
  "optimisticUpdate uid ident act old =
     (case old of
        None \<Rightarrow> None
      | Some videos \<Rightarrow> Some (map (optimisticVideo uid ident act) videos))"

text \<open>
  The state the callbacks read and write: the signed-in user's identifier (if any), the
  query cache entry \<^verbatim>\<open>['danceVideos']\<close> (\<open>None\<close> while nothing is cached), the
  \<^verbatim>\<open>likedVideos\<close> set of the component, and whether the query has been invalidated.
  \<^verbatim>\<open>onMutate\<close> returns the context that \<^verbatim>\<open>onError\<close> later receives; it returns
  none when nobody is signed in.
\<close>

record Home =
  user :: "string option"
  danceVideos :: "DanceVideo list option"
  likedVideos :: "string set"
  invalidated :: bool

record Context =
  previousVideos :: "DanceVideo list option"
  previousLikedState :: bool

definition onMutate :: "string \<Rightarrow> action \<Rightarrow> Home \<Rightarrow> Context option \<times> Home" where
  "onMutate ident act s =
     (case user s of
        None \<Rightarrow> (None, s)
      | Some uid \<Rightarrow>
          (Some \<lparr> previousVideos = danceVideos s, previousLikedState = (ident \<in> likedVideos s) \<rparr>,
           s\<lparr> danceVideos := optimisticUpdate uid ident act (danceVideos s),
              likedVideos := (if act = like then insert ident (likedVideos s)
                              else likedVideos s - {ident}) \<rparr>))"

definition onError :: "string \<Rightarrow> Context option \<Rightarrow> Home \<Rightarrow> Home" where
  "onError ident context s =
     (let s1 = (case context of
                  None \<Rightarrow> s
                | Some c \<Rightarrow> (case previousVideos c of
                               None \<Rightarrow> s
                             | Some videos \<Rightarrow> s\<lparr> danceVideos := Some videos \<rparr>))
      in s1\<lparr> likedVideos :=
               (case context of
                  None \<Rightarrow> likedVideos s1
                | Some c \<Rightarrow> if previousLikedState c then insert ident (likedVideos s1)
                            else likedVideos s1 - {ident}) \<rparr>)"

definition onSettled :: "Home \<Rightarrow> Home" where
  "onSettled s = s\<lparr> invalidated := True \<rparr>"

text \<open>
  A mutation whose remote call fails runs \<^verbatim>\<open>onMutate\<close>, then \<^verbatim>\<open>onError\<close> with
  the context, then \<^verbatim>\<open>onSettled\<close>. Between the first two the remote call is in
  flight; \<open>between\<close> is what other callbacks did to the state in that time.
\<close>

definition failedMutation :: "string \<Rightarrow> action \<Rightarrow> (Home \<Rightarrow> Home) \<Rightarrow> Home \<Rightarrow> Home" where
  "failedMutation ident act between s =
     (case onMutate ident act s of
        (context, s1) \<Rightarrow> onSettled (onError ident context (between s1)))"

text \<open>A sequence of optimistic applications, each one an \<^verbatim>\<open>onMutate\<close>.\<close>

fun applyAll :: "(string \<times> action) list \<Rightarrow> Home \<Rightarrow> Home" where
  "applyAll [] s = s"
| "applyAll ((ident, act) # rest) s = applyAll rest (snd (onMutate ident act s))"

section \<open>Example data\<close>

text \<open>Concrete inputs on which the theorems below are exercised.\<close>

definition mkScore :: "string \<Rightarrow> string \<Rightarrow> int \<Rightarrow> int \<Rightarrow> int \<Rightarrow> VideoScore" where
  "mkScore vid uid score likes views =
     \<lparr> vs_video_id = vid, vs_user_id = uid, vs_title = vid, vs_username = uid,
       vs_avatar_url = None, vs_score = score, vs_likes = likes, vs_views = views \<rparr>"

definition ex_scores :: "VideoScore list" where
  "ex_scores = [mkScore ''a'' ''u1'' 80 5 7, mkScore ''b'' ''u1'' 80 10 3, mkScore ''c'' ''u2'' 90 1 0]"

definition ex_scores_other_views :: "VideoScore list" where
  "ex_scores_other_views =
     [mkScore ''a'' ''u1'' 80 5 1000, mkScore ''b'' ''u1'' 80 10 0, mkScore ''c'' ''u2'' 90 1 42]"


definition ex_candidate :: VideoScore where
  "ex_candidate = mkScore ''b'' ''u1'' 80 10 3"

definition ex_map :: "(string, UserScore) js_map" where
  "ex_map = [(''u1'', toUserScore (mkScore ''a'' ''u1'' 80 5 7))]"

definition mkUser :: "string \<Rightarrow> string \<Rightarrow> int \<Rightarrow> int \<Rightarrow> int \<Rightarrow> UserScore" where
  "mkUser uid vid score likes views = toUserScore (mkScore vid uid score likes views)"

definition ex_best :: "(string, UserScore) js_map" where
  "ex_best = [(''u1'', mkUser ''u1'' ''v1'' 50 2 50), (''u2'', mkUser ''u2'' ''v2'' 50 2 100),
              (''u3'', mkUser ''u3'' ''v3'' 50 2 100)]"

definition ex_clock :: "nat \<Rightarrow> string" where
  "ex_clock i = ''2025-01-01T00:00:00.000Z''"

definition mkVideo :: "string \<Rightarrow> string \<Rightarrow> int \<Rightarrow> int \<Rightarrow> Video" where
  "mkVideo vid uid likes views =
     \<lparr> v_id = vid, v_title = vid, v_likes = likes, v_views = views, v_user_id = uid,
       v_users = Some \<lparr> u_username = Some uid, u_avatar_url = None \<rparr> \<rparr>"

definition ex_videos :: "Video list" where
  "ex_videos = [mkVideo ''a'' ''u1'' 0 5, mkVideo ''b'' ''u2'' 3 3, mkVideo ''c'' ''u3'' 4 0]"

definition ex_fresh_id :: "nat \<Rightarrow> string" where
  "ex_fresh_id i = replicate (Suc i) CHR ''r''"

definition ex_spread_error :: "nat \<Rightarrow> string option" where
  "ex_spread_error n = (if n \<le> 100000 then None else Some ''Maximum call stack size exceeded'')"

definition ex_env :: "string + Video list option \<Rightarrow> Env" where
  "ex_env fetched =
     \<lparr> fetch_result = fetched, delete_error = None, insert_error = None,
       fresh_id = ex_fresh_id, clock = ex_clock, spread_error = ex_spread_error \<rparr>"

definition ex_env_small_stack :: "string + Video list option \<Rightarrow> Env" where
  "ex_env_small_stack fetched =
     \<lparr> fetch_result = fetched, delete_error = None, insert_error = None,
       fresh_id = ex_fresh_id, clock = ex_clock,
       spread_error = (\<lambda>n. Some ''Maximum call stack size exceeded'') \<rparr>"

definition ex_old_row :: LeaderboardRow where
  "ex_old_row =
     \<lparr> row_id = ''old'',
       row_entry = \<lparr> le_video_id = ''v9'', le_score = 77, le_rank = 1, le_created_at = ''2024-12-31T00:00:00.000Z'' \<rparr> \<rparr>"

definition ex_user :: User where
  "ex_user =
     \<lparr> usr_id = ''owner'', usr_username = ''owner'', usr_fullname = ''The Owner'',
       usr_email = ''owner@example.org'', usr_avatar_url = '''', usr_created_at = ''2024-01-01'' \<rparr>"

definition mkDance :: "string \<Rightarrow> int \<Rightarrow> string list option \<Rightarrow> DanceVideo" where
  "mkDance vid likes liked_by =
     \<lparr> dv_id = vid, dv_title = vid, dv_description = '''', dv_category = ''dance'',
       dv_video_url = '''', dv_views = 0, dv_likes = likes, dv_liked_by = liked_by,
       dv_user_id = ''owner'', dv_created_at = ''2024-01-02'', dv_user = ex_user \<rparr>"

definition ex_home :: Home where
  "ex_home =
     \<lparr> user = Some ''me'',
       danceVideos = Some [mkDance ''v1'' 3 (Some [''you'']), mkDance ''v2'' 0 (Some [''me'']),
                           mkDance ''v3'' 7 None],
       likedVideos = {''v2''},
       invalidated = False \<rparr>"

definition ex_other_tap :: "Home \<Rightarrow> Home" where
  "ex_other_tap s = snd (onMutate ''v3'' like s)"

definition ex_taps :: "(string \<times> action) list" where
  "ex_taps = [(''v2'', dislike), (''v2'', dislike), (''v1'', like), (''v2'', like), (''v3'', dislike)]"

section \<open>Properties of rounding to binary64\<close>

lemma roundHalfEven_bounds: "\<lfloor>x\<rfloor> \<le> roundHalfEven x \<and> roundHalfEven x \<le> \<lfloor>x\<rfloor> + 1"
  by (simp add: roundHalfEven_def Let_def)

lemma roundHalfEven_of_int: "roundHalfEven (of_int n) = n"
  by (simp add: roundHalfEven_def Let_def)

lemma roundHalfEven_mono:
  assumes "x \<le> y"
  shows "roundHalfEven x \<le> roundHalfEven y"
proof (cases "\<lfloor>x\<rfloor> = \<lfloor>y\<rfloor>")
  case True
  with assms show ?thesis
    by (auto simp: roundHalfEven_def Let_def)
next
  case False
  with assms have "\<lfloor>x\<rfloor> + 1 \<le> \<lfloor>y\<rfloor>"
    using floor_mono [of x y] by linarith
  with roundHalfEven_bounds [of x] roundHalfEven_bounds [of y] show ?thesis
    by linarith
qed

lemma roundHalfEven_le_int: "x \<le> of_int n \<Longrightarrow> roundHalfEven x \<le> n"
  using roundHalfEven_mono [of x "of_int n"] by (simp add: roundHalfEven_of_int)

lemma roundHalfEven_ge_int: "of_int n \<le> x \<Longrightarrow> n \<le> roundHalfEven x"
  using roundHalfEven_mono [of "of_int n" x] by (simp add: roundHalfEven_of_int)

lemma bitlen_powi_bounds:
  assumes "0 < p"
  shows "(2::rat) powi (bitlen p - 1) \<le> of_int p" and "of_int p < (2::rat) powi bitlen p"
proof -
  from assms have b: "1 \<le> bitlen p"
    by (simp add: bitlen_alt_def)
  from bitlen_bounds [OF assms] have "(2::int) ^ nat (bitlen p - 1) \<le> p" "p < 2 ^ nat (bitlen p)"
    by simp_all
  then have "(of_int ((2::int) ^ nat (bitlen p - 1)) :: rat) \<le> of_int p"
            "(of_int p :: rat) < of_int (2 ^ nat (bitlen p))"
    by (simp_all only: of_int_le_iff of_int_less_iff)
  with b show "(2::rat) powi (bitlen p - 1) \<le> of_int p" "of_int p < (2::rat) powi bitlen p"
    by (simp_all add: power_int_def)
qed

lemma ilog2_bounds:
  assumes "0 < a"
  shows "2 powi ilog2 a \<le> a \<and> a < 2 powi (ilog2 a + 1)"
proof -
  obtain p q where pq: "quotient_of a = (p, q)" by (cases "quotient_of a")
  then have q: "0 < q" and a: "a = of_int p / of_int q"
    by (simp_all add: quotient_of_denom_pos quotient_of_div)
  with assms have p: "0 < p"
    by (simp add: zero_less_divide_iff)
  let ?d = "bitlen p - bitlen q"
  have up: "a < 2 powi (?d + 1)"
  proof -
    have "a < 2 powi bitlen p / 2 powi (bitlen q - 1)"
      unfolding a using bitlen_powi_bounds [OF p] bitlen_powi_bounds [OF q] p q
      by (intro frac_less) simp_all
    also have "\<dots> = 2 powi (bitlen p - (bitlen q - 1))"
      by (rule power_int_diff [symmetric]) simp
    also have "bitlen p - (bitlen q - 1) = ?d + 1"
      by simp
    finally show ?thesis .
  qed
  have lo: "2 powi (?d - 1) \<le> a"
  proof -
    have "2 powi (bitlen p - 1) / 2 powi bitlen q \<le> a"
      unfolding a using bitlen_powi_bounds [OF p] bitlen_powi_bounds [OF q] p q
      by (intro frac_le) simp_all
    moreover have "2 powi (bitlen p - 1) / 2 powi bitlen q = (2::rat) powi (bitlen p - 1 - bitlen q)"
      by (rule power_int_diff [symmetric]) simp
    moreover have "bitlen p - 1 - bitlen q = ?d - 1"
      by simp
    ultimately show ?thesis by simp
  qed
  show ?thesis
  proof (cases "2 powi ?d \<le> a")
    case True
    with up pq show ?thesis by (simp add: ilog2_def)
  next
    case False
    with lo pq show ?thesis by (simp add: ilog2_def)
  qed
qed

lemma ilog2_unique:
  assumes "0 < a" "2 powi k \<le> a" "a < 2 powi (k + 1)"
  shows "ilog2 a = k"
proof (rule ccontr)
  assume n: "ilog2 a \<noteq> k"
  from ilog2_bounds [OF assms(1)] have b: "2 powi ilog2 a \<le> a" "a < 2 powi (ilog2 a + 1)"
    by simp_all
  show False
  proof (cases "ilog2 a < k")
    case True
    then have "(2::rat) powi (ilog2 a + 1) \<le> 2 powi k"
      by (intro power_int_increasing) simp_all
    with b(2) assms(2) show False by linarith
  next
    case False
    with n have "(2::rat) powi (k + 1) \<le> 2 powi ilog2 a"
      by (intro power_int_increasing) simp_all
    with b(1) assms(3) show False by linarith
  qed
qed

lemma ilog2_mono:
  assumes "0 < a" "a \<le> b"
  shows "ilog2 a \<le> ilog2 b"
proof (rule ccontr)
  assume "\<not> ilog2 a \<le> ilog2 b"
  then have "(2::rat) powi (ilog2 b + 1) \<le> 2 powi ilog2 a"
    by (intro power_int_increasing) simp_all
  moreover from assms have "0 < b" by simp
  ultimately show False
    using ilog2_bounds [OF assms(1)] ilog2_bounds [OF \<open>0 < b\<close>] assms(2) by linarith
qed

lemma exponent64_mono: "0 < a \<Longrightarrow> a \<le> b \<Longrightarrow> exponent64 a \<le> exponent64 b"
  using ilog2_mono [of a b] by (simp add: exponent64_def)

lemma scaled_less:
  assumes "0 < a"
  shows "a / 2 powi exponent64 a < 2 ^ 53"
proof -
  have "a < 2 powi (ilog2 a + 1)"
    using ilog2_bounds [OF assms] by simp
  also have "\<dots> \<le> 2 powi (exponent64 a + 53)"
    by (intro power_int_increasing) (simp_all add: exponent64_def)
  also have "\<dots> = 2 powi exponent64 a * 2 ^ 53"
    by (simp add: power_int_add)
  finally show ?thesis
    by (simp add: pos_divide_less_eq mult.commute)
qed

lemma scaled_ge:
  assumes "0 < a" "- 1074 < exponent64 a"
  shows "2 ^ 52 \<le> a / 2 powi exponent64 a"
proof -
  from assms(2) have e: "exponent64 a = ilog2 a - 52"
    by (simp add: exponent64_def max_def split: if_splits)
  have "(2::rat) powi exponent64 a * 2 ^ 52 = 2 powi ilog2 a"
    by (simp add: e power_int_diff)
  also have "\<dots> \<le> a"
    using ilog2_bounds [OF assms(1)] by simp
  finally show ?thesis
    by (simp add: pos_le_divide_eq mult.commute)
qed

lemma significand64_le: "0 < a \<Longrightarrow> significand64 a \<le> 2 ^ 53"
  unfolding significand64_def using scaled_less [of a]
  by (intro roundHalfEven_le_int) simp

lemma significand64_ge: "0 < a \<Longrightarrow> - 1074 < exponent64 a \<Longrightarrow> 2 ^ 52 \<le> significand64 a"
  unfolding significand64_def using scaled_ge [of a]
  by (intro roundHalfEven_ge_int) simp

lemma significand64_nonneg: "0 < a \<Longrightarrow> 0 \<le> significand64 a"
  unfolding significand64_def
  by (intro roundHalfEven_ge_int) simp


lemma exponent64_ge: "- 1074 \<le> exponent64 a"
  by (simp add: exponent64_def)

lemma value64_nonneg: "0 < a \<Longrightarrow> 0 \<le> value64 a"
  by (simp add: value64_def significand64_nonneg)

lemma value64_le: "0 < a \<Longrightarrow> value64 a \<le> 2 powi (exponent64 a + 53)"
proof -
  assume "0 < a"
  then have "(of_int (significand64 a) :: rat) \<le> of_int (2 ^ 53)"
    by (simp only: of_int_le_iff significand64_le)
  then have "value64 a \<le> 2 ^ 53 * 2 powi exponent64 a"
    unfolding value64_def by (intro mult_right_mono) simp_all
  also have "\<dots> = 2 powi (exponent64 a + 53)"
    by (simp add: power_int_add)
  finally show ?thesis .
qed

lemma value64_ge: "0 < a \<Longrightarrow> - 1074 < exponent64 a \<Longrightarrow> 2 powi (exponent64 a + 52) \<le> value64 a"
proof -
  assume "0 < a" "- 1074 < exponent64 a"
  then have "(of_int (2 ^ 52) :: rat) \<le> of_int (significand64 a)"
    by (simp only: of_int_le_iff significand64_ge)
  then have "2 ^ 52 * 2 powi exponent64 a \<le> value64 a"
    unfolding value64_def by (intro mult_right_mono) simp_all
  moreover have "(2::rat) ^ 52 * 2 powi exponent64 a = 2 powi (exponent64 a + 52)"
    by (simp add: power_int_add)
  ultimately show ?thesis by simp
qed

lemma value64_mono:
  assumes "0 < a" "a \<le> b"
  shows "value64 a \<le> value64 b"
proof (cases "exponent64 a = exponent64 b")
  case True
  have "a / 2 powi exponent64 b \<le> b / 2 powi exponent64 b"
    using assms(2) by (intro divide_right_mono) simp_all
  then have "significand64 a \<le> significand64 b"
    unfolding significand64_def True by (rule roundHalfEven_mono)
  then have "(of_int (significand64 a) :: rat) \<le> of_int (significand64 b)"
    by (simp only: of_int_le_iff)
  then show ?thesis
    unfolding value64_def True by (intro mult_right_mono) simp_all
next
  case False
  from assms have b: "0 < b" by simp
  from False exponent64_mono [OF assms] have lt: "exponent64 a < exponent64 b"
    by simp
  with exponent64_ge [of a] have "- 1074 < exponent64 b"
    by linarith
  from value64_ge [OF b this] have "2 powi (exponent64 b + 52) \<le> value64 b" .
  moreover have "(2::rat) powi (exponent64 a + 53) \<le> 2 powi (exponent64 b + 52)"
    using lt by (intro power_int_increasing) simp_all
  ultimately show ?thesis
    using value64_le [OF assms(1)] by linarith
qed

lemma two_powi_1024: "(2::rat) ^ 53 * 2 powi 971 = 2 powi 1024"
proof -
  have "(2::rat) powi (53 + 971) = 2 powi 53 * 2 powi 971"
    by (rule power_int_add) simp
  moreover have "(2::rat) powi 53 = 2 ^ 53"
    by (rule power_int_numeral)
  moreover have "(2::rat) powi (53 + 971) = 2 powi 1024"
    by (simp del: power_int_numeral)
  ultimately show ?thesis
    by (simp only:)
qed

lemma overflows64_iff:
  assumes "0 < a"
  shows "overflows64 a \<longleftrightarrow> 2 powi 1024 \<le> value64 a"
proof
  assume "overflows64 a"
  then consider "971 < exponent64 a" | "exponent64 a = 971" "2 ^ 53 \<le> significand64 a"
    unfolding overflows64_def by blast
  then show "2 powi 1024 \<le> value64 a"
  proof cases
    case 1
    then have "(2::rat) powi 1024 \<le> 2 powi (exponent64 a + 52)"
      by (intro power_int_increasing) simp_all
    moreover from 1 have "- 1074 < exponent64 a" by simp
    ultimately show ?thesis
      using value64_ge [OF assms] by linarith
  next
    case 2
    from 2(2) have "(of_int (2 ^ 53) :: rat) \<le> of_int (significand64 a)"
      by (simp only: of_int_le_iff)
    then have "2 ^ 53 * 2 powi exponent64 a \<le> value64 a"
      unfolding value64_def by (intro mult_right_mono) simp_all
    moreover have "(2::rat) ^ 53 * 2 powi exponent64 a = 2 powi 1024"
      unfolding 2(1) by (rule two_powi_1024)
    ultimately show ?thesis by simp
  qed
next
  assume v: "2 powi 1024 \<le> value64 a"
  show "overflows64 a"
  proof (rule ccontr)
    assume "\<not> overflows64 a"
    then consider "exponent64 a < 971" | "exponent64 a = 971" "significand64 a < 2 ^ 53"
      unfolding overflows64_def by fastforce
    then show False
    proof cases
      case 1
      then have "(2::rat) powi (exponent64 a + 53) < 2 powi 1024"
        by (intro power_int_strict_increasing) simp_all
      with v value64_le [OF assms] show False by linarith
    next
      case 2
      from 2(2) have "(of_int (significand64 a) :: rat) < of_int (2 ^ 53)"
        by (simp only: of_int_less_iff)
      then have "value64 a < 2 ^ 53 * 2 powi exponent64 a"
        unfolding value64_def by (intro mult_strict_right_mono) simp_all
      moreover have "(2::rat) ^ 53 * 2 powi exponent64 a = 2 powi 1024"
        unfolding 2(1) by (rule two_powi_1024)
      ultimately show False using v by simp
    qed
  qed
qed

lemma round64_eq:
  "round64 x =
     (if x = 0 then Num 0
      else if overflows64 \<bar>x\<bar> then (if 0 < x then PosInfinity else NegInfinity)
      else Num (if 0 < x then value64 \<bar>x\<bar> else - value64 \<bar>x\<bar>))"
  unfolding round64_def Let_def overflows64_def value64_def significand64_def
  by (rule refl)

lemma round64_pos:
  "0 < x \<Longrightarrow> round64 x = (if 2 powi 1024 \<le> value64 x then PosInfinity else Num (value64 x))"
  by (simp add: round64_eq overflows64_iff)

lemma round64_neg:
  "x < 0 \<Longrightarrow> round64 x = (if 2 powi 1024 \<le> value64 (- x) then NegInfinity else Num (- value64 (- x)))"
  by (simp add: round64_eq overflows64_iff)

lemma round64_zero: "round64 0 = Num 0"
  by (simp add: round64_def)

lemma round64_not_NaN: "round64 x \<noteq> NaN"
  by (simp add: round64_eq)

lemma round64_mono:
  assumes "x \<le> y"
  shows "num_le (round64 x) (round64 y)"
proof -
  consider "0 < x" | "x = 0" "y = 0" | "x = 0" "0 < y" | "x < 0" "y = 0" | "x < 0" "0 < y" | "x < 0" "y < 0"
    using assms by linarith
  then show ?thesis
  proof cases
    case 1
    with assms have y: "0 < y" by simp
    from value64_mono [OF 1 assms] show ?thesis
      by (simp add: round64_pos 1 y del: power_int_numeral)
  next
    case 2
    then show ?thesis by (simp add: round64_zero)
  next
    case 3
    with value64_nonneg [of y] show ?thesis
      by (simp add: round64_zero round64_pos del: power_int_numeral)
  next
    case 4
    with value64_nonneg [of "- x"] show ?thesis
      by (simp add: round64_zero round64_neg del: power_int_numeral)
  next
    case 5
    with value64_nonneg [of "- x"] value64_nonneg [of y] show ?thesis
      by (simp add: round64_pos round64_neg del: power_int_numeral)
  next
    case 6
    then have "0 < - y" "- y \<le> - x" using assms by simp_all
    from value64_mono [OF this] 6 show ?thesis
      by (simp add: round64_neg del: power_int_numeral)
  qed
qed

section \<open>Properties of the operations on numbers\<close>

lemma num_le_refl: "a \<noteq> NaN \<Longrightarrow> num_le a a"
  by (cases a) simp_all


lemma num_le_antisym: "num_le a b \<Longrightarrow> num_le b a \<Longrightarrow> a = b"
  by (cases a; cases b) simp_all

lemma num_le_not_NaN: "num_le a b \<Longrightarrow> a \<noteq> NaN \<and> b \<noteq> NaN"
  by (cases a; cases b) simp_all

lemma num_div_mono:
  "0 < y \<Longrightarrow> x \<le> x' \<Longrightarrow> num_le (num_div (Num x) (Num y)) (num_div (Num x') (Num y))"
  by (simp add: round64_mono divide_right_mono)

lemma num_div_nonneg:
  "0 < y \<Longrightarrow> num_le (Num 0) a \<Longrightarrow> num_le (Num 0) (num_div a (Num y))"
proof (cases a)
  case (Num x)
  assume "0 < y" "num_le (Num 0) a"
  with Num have "0 \<le> x / y" by simp
  from round64_mono [OF this] Num \<open>0 < y\<close> show ?thesis
    by (simp add: round64_zero)
qed simp_all

lemma num_mul_mono:
  "0 < c \<Longrightarrow> num_le a b \<Longrightarrow> num_le (num_mul a (Num c)) (num_mul b (Num c))"
proof (cases a; cases b)
  fix x y assume "0 < c" "num_le a b" "a = Num x" "b = Num y"
  then have "x * c \<le> y * c" by (simp add: mult_right_mono)
  from round64_mono [OF this] \<open>a = Num x\<close> \<open>b = Num y\<close> show ?thesis by simp
next
  fix x assume "0 < c" "a = NegInfinity" "b = Num x"
  then show ?thesis
    using round64_not_NaN [of "x * c"] by (cases "round64 (x * c)") simp_all
next
  fix x assume "0 < c" "a = Num x" "b = PosInfinity"
  then show ?thesis
    using round64_not_NaN [of "x * c"] by (cases "round64 (x * c)") simp_all
qed simp_all

lemma num_le_PosInfinity: "a \<noteq> NaN \<Longrightarrow> num_le a PosInfinity"
  by (cases a) simp_all

lemma num_le_NegInfinity: "a \<noteq> NaN \<Longrightarrow> num_le NegInfinity a"
  by (cases a) simp_all

lemma num_add_PosInfinity:
  "num_add a b \<noteq> NaN \<Longrightarrow> a = PosInfinity \<or> b = PosInfinity \<Longrightarrow> num_add a b = PosInfinity"
  by (cases a; cases b) simp_all

lemma num_add_NegInfinity:
  "num_add a b \<noteq> NaN \<Longrightarrow> a = NegInfinity \<or> b = NegInfinity \<Longrightarrow> num_add a b = NegInfinity"
  by (cases a; cases b) simp_all

lemma num_le_Num_left: "num_le (Num x) b \<Longrightarrow> b \<noteq> PosInfinity \<Longrightarrow> \<exists>y. b = Num y \<and> x \<le> y"
  by (cases b) simp_all

lemma num_le_Num_right: "num_le a (Num y) \<Longrightarrow> a \<noteq> NegInfinity \<Longrightarrow> \<exists>x. a = Num x \<and> x \<le> y"
  by (cases a) simp_all

lemma num_add_mono:
  assumes "num_le a a'" "num_le b b'" "num_add a b \<noteq> NaN" "num_add a' b' \<noteq> NaN"
  shows "num_le (num_add a b) (num_add a' b')"
proof -
  consider "a' = PosInfinity \<or> b' = PosInfinity" | "a = NegInfinity \<or> b = NegInfinity"
    | "a' \<noteq> PosInfinity" "b' \<noteq> PosInfinity" "a \<noteq> NegInfinity" "b \<noteq> NegInfinity"
    by blast
  then show ?thesis
  proof cases
    case 1
    with assms(3,4) show ?thesis
      by (simp add: num_add_PosInfinity num_le_PosInfinity)
  next
    case 2
    with assms(3,4) show ?thesis
      by (simp add: num_add_NegInfinity num_le_NegInfinity)
  next
    case 3
    from assms(1) 3(1,3) obtain x x' where a: "a = Num x" "a' = Num x'" "x \<le> x'"
      by (cases a; cases a') simp_all
    from assms(2) 3(2,4) obtain y y' where b: "b = Num y" "b' = Num y'" "y \<le> y'"
      by (cases b; cases b') simp_all
    from a(3) b(3) have "x + y \<le> x' + y'" by simp
    from round64_mono [OF this] show ?thesis
      by (simp add: a b)
  qed
qed

lemma num_add_not_NaN:
  "num_le a (Num p) \<Longrightarrow> num_le b (Num q) \<Longrightarrow> num_add a b \<noteq> NaN"
  by (cases a; cases b) (simp_all add: round64_not_NaN)

lemma num_add_nonneg:
  assumes "num_le (Num 0) a" "num_le (Num 0) b"
  shows "num_le (Num 0) (num_add a b)"
proof -
  from assms have n: "num_add a b \<noteq> NaN"
    by (cases a; cases b) (simp_all add: round64_not_NaN)
  have "num_add (Num 0) (Num 0) = Num 0"
    by (simp add: round64_zero)
  with num_add_mono [OF assms _ n, of ] show ?thesis
    by simp
qed

lemma num_mul_nonneg:
  assumes "0 < c" "num_le (Num 0) a"
  shows "num_le (Num 0) (num_mul a (Num c))"
  using num_mul_mono [OF assms] by (simp add: round64_zero)




lemma clamp_range:
  assumes "s \<noteq> NaN"
  shows "\<exists>n. Math_min (Math_max (Math_round s) (Num 0)) (Num 100) = Num (of_int n) \<and> 0 \<le> n \<and> n \<le> 100"
proof (cases s)
  case NaN
  with assms show ?thesis by simp
next
  case NegInfinity
  then have "Math_min (Math_max (Math_round s) (Num 0)) (Num 100) = Num (of_int 0)"
    by (simp add: Math_max_def Math_min_def)
  then show ?thesis by (intro exI [of _ 0]) simp
next
  case PosInfinity
  then have "Math_min (Math_max (Math_round s) (Num 0)) (Num 100) = Num (of_int 100)"
    by (simp add: Math_max_def Math_min_def)
  then show ?thesis by (intro exI [of _ 100]) simp
next
  case (Num x)
  have "Math_min (Math_max (Num (of_int k)) (Num 0)) (Num 100) = Num (of_int (min (max k 0) 100))" for k :: int
    by (simp add: Math_max_def Math_min_def max_def min_def)
  then have "Math_min (Math_max (Math_round s) (Num 0)) (Num 100) =
             Num (of_int (min (max \<lfloor>x + 1 / 2\<rfloor> 0) 100))"
    unfolding Num by (simp only: Math_round.simps)
  then show ?thesis by (intro exI [of _ "min (max \<lfloor>x + 1 / 2\<rfloor> 0) 100"]) simp
qed

lemma clamp_NaN: "Math_min (Math_max (Math_round NaN) (Num 0)) (Num 100) = NaN"
  by (simp add: Math_max_def Math_min_def)

section \<open>Properties of the score calculator\<close>

lemma calculateScore_eq:
  "calculateScore likes views maxLikes maxViews =
   clampedScore (normalized likes maxLikes) (normalized views maxViews)"
  by (simp add: calculateScore_def clampedScore_def normalized_def Let_def)

lemma literal_0_7: "round64 (7 / 10) = Num (3152519739159347 / 4503599627370496)"
  by code_simp

lemma literal_0_3: "round64 (3 / 10) = Num (5404319552844595 / 18014398509481984)"
  by code_simp

lemma round64_one: "round64 1 = Num 1"
  by code_simp


lemma normalized_Num:
  "normalized (Num x) (Num m) = (if 0 < m then round64 (x / m) else Num 0)"
  by (simp add: normalized_def)


lemma normalized_nonneg:
  "num_le (Num 0) a \<Longrightarrow> num_le (Num 0) (normalized a (Num m))"
  by (simp add: normalized_def num_div_nonneg)

lemma normalized_le_one:
  assumes "x \<le> m"
  shows "num_le (normalized (Num x) (Num m)) (Num 1)"
proof (cases "0 < m")
  case True
  with assms have "x / m \<le> 1" by simp
  from round64_mono [OF this] True show ?thesis
    by (simp add: normalized_Num round64_one)
next
  case False
  then show ?thesis by (simp add: normalized_Num)
qed

lemma weight_le:
  assumes "0 < c" "round64 (1 * c) = Num c" "num_le a (Num 1)"
  shows "num_le (num_mul a (Num c)) (Num c)"
  using num_mul_mono [OF assms(1,3)] assms(2) by simp

lemma weighted_sum_not_NaN:
  assumes "num_le a (Num 1)" "num_le b (Num 1)"
  shows "num_add (num_mul a (round64 (7 / 10))) (num_mul b (round64 (3 / 10))) \<noteq> NaN"
proof -
  have "num_le (num_mul a (round64 (7 / 10))) (num_mul (Num 1) (round64 (7 / 10)))"
    unfolding literal_0_7 by (rule num_mul_mono [OF _ assms(1)]) simp
  moreover have "num_le (num_mul b (round64 (3 / 10))) (num_mul (Num 1) (round64 (3 / 10)))"
    unfolding literal_0_3 by (rule num_mul_mono [OF _ assms(2)]) simp
  moreover have "num_mul (Num 1) (round64 (7 / 10)) = Num (3152519739159347 / 4503599627370496)"
    by code_simp
  moreover have "num_mul (Num 1) (round64 (3 / 10)) = Num (5404319552844595 / 18014398509481984)"
    by code_simp
  ultimately show ?thesis
    by (simp add: num_add_not_NaN)
qed

lemma weighted_sum_nonneg:
  assumes "num_le (Num 0) a" "num_le (Num 0) b"
  shows "num_le (Num 0) (num_add (num_mul a (round64 (7 / 10))) (num_mul b (round64 (3 / 10))))"
proof -
  have "num_le (Num 0) (num_mul a (round64 (7 / 10)))"
    unfolding literal_0_7 by (rule num_mul_nonneg [OF _ assms(1)]) simp
  moreover have "num_le (Num 0) (num_mul b (round64 (3 / 10)))"
    unfolding literal_0_3 by (rule num_mul_nonneg [OF _ assms(2)]) simp
  ultimately show ?thesis by (rule num_add_nonneg)
qed

lemma clampedScore_range:
  assumes "num_add (num_mul a (round64 (7 / 10))) (num_mul b (round64 (3 / 10))) \<noteq> NaN"
  shows "\<exists>n. clampedScore a b = Num (of_int n) \<and> 0 \<le> n \<and> n \<le> 100"
proof -
  let ?s = "num_add (num_mul a (round64 (7 / 10))) (num_mul b (round64 (3 / 10)))"
  from assms have "num_le ?s ?s" by (rule num_le_refl)
  then have "num_le (num_mul ?s (Num 100)) (num_mul ?s (Num 100))"
    by (intro num_mul_mono) simp
  then have "num_mul ?s (Num 100) \<noteq> NaN"
    using num_le_not_NaN by blast
  from clamp_range [OF this] show ?thesis
    by (simp add: clampedScore_def)
qed













lemma calculateScore_of_counts:
  assumes "likes \<le> maxLikes" "views \<le> maxViews"
  shows "\<exists>n. calculateScore (Num likes) (Num views) (Num maxLikes) (Num maxViews) = Num (of_int n) \<and>
             0 \<le> n \<and> n \<le> 100"
  unfolding calculateScore_eq
  by (intro clampedScore_range weighted_sum_not_NaN normalized_le_one assms)

text \<open>
  Claim C1. For every non-negative \<open>likes\<close> and \<open>views\<close> (an infinite count
  included) and every \<open>maxLikes\<close> and \<open>maxViews\<close> that are at least 1, the score
  calculator returns an integer between 0 and 100 inclusive. The maxima are finite
  numbers, as every maximum of counts is. Non-negative inputs keep every intermediate
  value non-negative, so no NaN arises, and the final
  \<^verbatim>\<open>Math.min(Math.max(..., 0), 100)\<close> bounds every other rounded sum, the infinite one
  included.
\<close>

theorem calculateScore_in_0_100:
  assumes "num_le (Num 0) likes" and "num_le (Num 0) views"
      and "1 \<le> maxLikes" and "1 \<le> maxViews"
  shows "\<exists>n. calculateScore likes views (Num maxLikes) (Num maxViews) = Num (of_int n) \<and>
             0 \<le> n \<and> n \<le> 100"
proof -
  have "num_le (Num 0) (normalized likes (Num maxLikes))"
    using assms(1) by (rule normalized_nonneg)
  moreover have "num_le (Num 0) (normalized views (Num maxViews))"
    using assms(2) by (rule normalized_nonneg)
  ultimately have "num_le (Num 0)
      (num_add (num_mul (normalized likes (Num maxLikes)) (round64 (7 / 10)))
               (num_mul (normalized views (Num maxViews)) (round64 (3 / 10))))"
    by (rule weighted_sum_nonneg)
  then have "num_add (num_mul (normalized likes (Num maxLikes)) (round64 (7 / 10)))
               (num_mul (normalized views (Num maxViews)) (round64 (3 / 10))) \<noteq> NaN"
    using num_le_not_NaN by blast
  from clampedScore_range [OF this] show ?thesis
    by (simp add: calculateScore_eq)
qed

theorem calculateScore_in_0_100_witness:
  "num_le (Num 0) (Num 0) \<and> num_le (Num 0) (Num 3) \<and> (1::rat) \<le> 1 \<and> (1::rat) \<le> 4 \<and>
   (\<exists>n. calculateScore (Num 0) (Num 3) (Num 1) (Num 4) = Num (of_int n) \<and> 0 \<le> n \<and> n \<le> 100) \<and>
   calculateScore (Num 0) (Num 3) (Num 1) (Num 4) = Num 22"
proof -
  have v: "calculateScore (Num 0) (Num 3) (Num 1) (Num 4) = Num 22"
    by code_simp
  have "\<exists>n. calculateScore (Num 0) (Num 3) (Num 1) (Num 4) = Num (of_int n) \<and> 0 \<le> n \<and> n \<le> 100"
    by (rule calculateScore_in_0_100) simp_all
  with v show ?thesis by simp
qed




section \<open>Properties of the per-user best-video reducer\<close>

lemma Map_get_Map_set: "Map_get (Map_set m k v) k' = (if k' = k then Some v else Map_get m k')"
  by (simp add: Map_get_def Map_set_def update_conv')

lemma keys_Map_set: "fst ` set (Map_set m k v) = insert k (fst ` set m)"
  unfolding Map_set_def using dom_update [of k v m] by (simp add: dom_map_of_conv_image_fst)

lemma distinct_Map_set: "distinct (map fst m) \<Longrightarrow> distinct (map fst (Map_set m k v))"
  by (simp add: Map_set_def distinct_update)

lemma Map_get_None_iff: "Map_get m k = None \<longleftrightarrow> k \<notin> fst ` set m"
  by (simp add: Map_get_def map_of_eq_None_iff)

lemma Map_get_bestStep_other:
  "vs_user_id video \<noteq> u \<Longrightarrow> Map_get (bestStep video m) u = Map_get m u"
  by (simp add: bestStep_def Map_get_Map_set)

lemma Map_get_bestStep_same:
  "Map_get (bestStep video m) (vs_user_id video) =
     (case Map_get m (vs_user_id video) of
        None \<Rightarrow> Some (toUserScore video)
      | Some existingUser \<Rightarrow>
          if vs_score video > us_score existingUser \<or>
             (vs_score video = us_score existingUser \<and> vs_likes video > us_likes existingUser)
          then Some (toUserScore video) else Some existingUser)"
  by (simp add: bestStep_def Map_get_Map_set split: option.splits)

lemma keys_bestStep: "fst ` set (bestStep video m) = insert (vs_user_id video) (fst ` set m)"
proof (cases "Map_get m (vs_user_id video)")
  case None
  then show ?thesis by (simp add: bestStep_def keys_Map_set)
next
  case (Some e)
  then have "vs_user_id video \<in> fst ` set m"
    using Map_get_None_iff [of m "vs_user_id video"] by simp
  then show ?thesis
    by (auto simp: bestStep_def keys_Map_set)
qed

lemma distinct_bestStep: "distinct (map fst m) \<Longrightarrow> distinct (map fst (bestStep video m))"
  by (simp add: bestStep_def distinct_Map_set)

lemma keys_fold_bestStep:
  "fst ` set (fold bestStep scores m) = vs_user_id ` set scores \<union> fst ` set m"
  by (induction scores arbitrary: m) (auto simp: keys_bestStep)

lemma distinct_fold_bestStep:
  "distinct (map fst m) \<Longrightarrow> distinct (map fst (fold bestStep scores m))"
  by (induction scores arbitrary: m) (auto simp: distinct_bestStep)


lemma userBestVideos_snoc: "userBestVideos (xs @ [x]) = bestStep x (userBestVideos xs)"
  by (simp add: userBestVideos_def)

lemma Map_get_userBestVideos_None:
  "Map_get (userBestVideos scores) u = None \<longleftrightarrow> u \<notin> vs_user_id ` set scores"
  by (simp add: Map_get_None_iff userBestVideos_def keys_fold_bestStep)

lemma userBestVideos_first_best:
  "Map_get (userBestVideos scores) u = Some e \<Longrightarrow>
   \<exists>pre v post. scores = pre @ v # post \<and> e = toUserScore v \<and> vs_user_id v = u \<and>
     (\<forall>w \<in> set pre. vs_user_id w = u \<longrightarrow>
        vs_score v > vs_score w \<or> (vs_score v = vs_score w \<and> vs_likes v > vs_likes w)) \<and>
     (\<forall>w \<in> set post. vs_user_id w = u \<longrightarrow>
        \<not> (vs_score w > vs_score v \<or> (vs_score w = vs_score v \<and> vs_likes w > vs_likes v)))"
proof (induction scores arbitrary: e rule: rev_induct)
  case Nil
  then show ?case by (simp add: userBestVideos_def Map_get_def)
next
  case (snoc x xs)
  let ?m = "userBestVideos xs"
  show ?case
  proof (cases "vs_user_id x = u")
    case False
    with snoc.prems have "Map_get ?m u = Some e"
      by (simp add: userBestVideos_snoc Map_get_bestStep_other)
    from snoc.IH [OF this] obtain pre v post where
      d: "xs = pre @ v # post" "e = toUserScore v" "vs_user_id v = u"
         "\<forall>w \<in> set pre. vs_user_id w = u \<longrightarrow>
            vs_score v > vs_score w \<or> (vs_score v = vs_score w \<and> vs_likes v > vs_likes w)"
         "\<forall>w \<in> set post. vs_user_id w = u \<longrightarrow>
            \<not> (vs_score w > vs_score v \<or> (vs_score w = vs_score v \<and> vs_likes w > vs_likes v))"
      by blast
    have "xs @ [x] = pre @ v # (post @ [x])" using d(1) by simp
    moreover have "\<forall>w \<in> set (post @ [x]). vs_user_id w = u \<longrightarrow>
            \<not> (vs_score w > vs_score v \<or> (vs_score w = vs_score v \<and> vs_likes w > vs_likes v))"
      using d(5) False by auto
    ultimately show ?thesis using d(2,3,4) by blast
  next
    case True
    show ?thesis
    proof (cases "Map_get ?m u")
      case None
      then have "u \<notin> vs_user_id ` set xs"
        by (simp add: Map_get_userBestVideos_None)
      then have "\<forall>w \<in> set xs. vs_user_id w \<noteq> u"
        by blast
      moreover from None True snoc.prems have "e = toUserScore x"
        using Map_get_bestStep_same [of x ?m] by (simp add: userBestVideos_snoc)
      ultimately have "xs @ [x] = xs @ x # [] \<and> e = toUserScore x \<and> vs_user_id x = u \<and>
         (\<forall>w \<in> set xs. vs_user_id w = u \<longrightarrow>
            vs_score x > vs_score w \<or> (vs_score x = vs_score w \<and> vs_likes x > vs_likes w)) \<and>
         (\<forall>w \<in> set []. vs_user_id w = u \<longrightarrow>
            \<not> (vs_score w > vs_score x \<or> (vs_score w = vs_score x \<and> vs_likes w > vs_likes x)))"
        using True by simp
      then show ?thesis by blast
    next
      case (Some e0)
      from snoc.IH [OF this] obtain pre v post where
        d: "xs = pre @ v # post" "e0 = toUserScore v" "vs_user_id v = u"
           "\<forall>w \<in> set pre. vs_user_id w = u \<longrightarrow>
              vs_score v > vs_score w \<or> (vs_score v = vs_score w \<and> vs_likes v > vs_likes w)"
           "\<forall>w \<in> set post. vs_user_id w = u \<longrightarrow>
              \<not> (vs_score w > vs_score v \<or> (vs_score w = vs_score v \<and> vs_likes w > vs_likes v))"
        by blast
      have e0: "us_score e0 = vs_score v" "us_likes e0 = vs_likes v"
        using d(2) by (simp_all add: toUserScore_def)
      show ?thesis
      proof (cases "vs_score x > vs_score v \<or> (vs_score x = vs_score v \<and> vs_likes x > vs_likes v)")
        case better: True
        with Some True snoc.prems e0 have "e = toUserScore x"
          using Map_get_bestStep_same [of x ?m]
          by (auto simp: userBestVideos_snoc split: if_splits)
        moreover have "\<forall>w \<in> set xs. vs_user_id w = u \<longrightarrow>
            vs_score x > vs_score w \<or> (vs_score x = vs_score w \<and> vs_likes x > vs_likes w)"
        proof (intro ballI impI)
          fix w assume w: "w \<in> set xs" "vs_user_id w = u"
          then consider "w \<in> set pre" | "w = v" | "w \<in> set post"
            using d(1) by auto
          then show "vs_score x > vs_score w \<or> (vs_score x = vs_score w \<and> vs_likes x > vs_likes w)"
          proof cases
            case 1
            with d(4) w(2) better show ?thesis by fastforce
          next
            case 2
            with better show ?thesis by simp
          next
            case 3
            with d(5) w(2) better show ?thesis by fastforce
          qed
        qed
        ultimately have "xs @ [x] = xs @ x # [] \<and> e = toUserScore x \<and> vs_user_id x = u \<and>
           (\<forall>w \<in> set xs. vs_user_id w = u \<longrightarrow>
              vs_score x > vs_score w \<or> (vs_score x = vs_score w \<and> vs_likes x > vs_likes w)) \<and>
           (\<forall>w \<in> set []. vs_user_id w = u \<longrightarrow>
              \<not> (vs_score w > vs_score x \<or> (vs_score w = vs_score x \<and> vs_likes w > vs_likes x)))"
          using True by simp
        then show ?thesis by blast
      next
        case keep: False
        with Some True snoc.prems e0 have "e = e0"
          using Map_get_bestStep_same [of x ?m]
          by (auto simp: userBestVideos_snoc split: if_splits)
        moreover have "xs @ [x] = pre @ v # (post @ [x])" using d(1) by simp
        moreover have "\<forall>w \<in> set (post @ [x]). vs_user_id w = u \<longrightarrow>
            \<not> (vs_score w > vs_score v \<or> (vs_score w = vs_score v \<and> vs_likes w > vs_likes v))"
          using d(5) keep by auto
        ultimately show ?thesis using d(2,3,4) by blast
      qed
    qed
  qed
qed

lemma Map_set_map_values:
  "Map_set (map (\<lambda>(k, e). (k, f e)) m) k (f v) = map (\<lambda>(k, e). (k, f e)) (Map_set m k v)"
  unfolding Map_set_def by (induction m) auto

lemma Map_get_map_values:
  "Map_get (map (\<lambda>(k, e). (k, f e)) m) k = map_option f (Map_get m k)"
  unfolding Map_get_def by (simp add: map_of_map)

lemma toUserScore_erase_views:
  "toUserScore (video\<lparr>vs_views := 0\<rparr>) = (toUserScore video)\<lparr>us_views := 0\<rparr>"
  by (simp add: toUserScore_def)

lemma bestStep_erase_views:
  "bestStep (video\<lparr>vs_views := 0\<rparr>) (map (\<lambda>(k, e). (k, e\<lparr>us_views := 0\<rparr>)) m) =
   map (\<lambda>(k, e). (k, e\<lparr>us_views := 0\<rparr>)) (bestStep video m)"
proof (cases "Map_get m (vs_user_id video)")
  case None
  then show ?thesis
    by (simp add: bestStep_def Map_get_map_values toUserScore_erase_views Map_set_map_values)
next
  case (Some existingUser)
  then show ?thesis
    by (simp add: bestStep_def Map_get_map_values toUserScore_erase_views Map_set_map_values)
qed

lemma fold_bestStep_erase_views:
  "fold bestStep (map (\<lambda>v. v\<lparr>vs_views := 0\<rparr>) scores) (map (\<lambda>(k, e). (k, e\<lparr>us_views := 0\<rparr>)) m) =
   map (\<lambda>(k, e). (k, e\<lparr>us_views := 0\<rparr>)) (fold bestStep scores m)"
  by (induction scores arbitrary: m) (simp_all add: bestStep_erase_views)

lemma userBestVideos_erase_views:
  "userBestVideos (map (\<lambda>v. v\<lparr>vs_views := 0\<rparr>) scores) =
   map (\<lambda>(k, e). (k, e\<lparr>us_views := 0\<rparr>)) (userBestVideos scores)"
  using fold_bestStep_erase_views [of scores "[]"] by (simp add: userBestVideos_def)

text \<open>
  Claim C2. The per-user best-video reducer produces exactly one entry per distinct user
  of the corpus: the keys of the resulting map are distinct and are exactly the user
  identifiers of the scored videos. A candidate replaces the current best of its user if
  and only if its score is strictly greater, or its score is equal and its likes are
  strictly greater (a user without an entry gets the candidate); so the entry of a user
  is a video of that user that no other video of the user beats on (score, likes).
  Views are never consulted: two corpora that differ only in the views of their videos
  are reduced to the same entries, up to the views copied into them.
\<close>

theorem userBestVideos_one_per_user_score_then_likes:
  assumes "map (\<lambda>v. v\<lparr>vs_views := 0\<rparr>) scores' = map (\<lambda>v. v\<lparr>vs_views := 0\<rparr>) scores"
  shows "distinct (map fst (userBestVideos scores)) \<and>
         fst ` set (userBestVideos scores) = vs_user_id ` set scores \<and>
         Map_get (bestStep video m) (vs_user_id video) =
           (case Map_get m (vs_user_id video) of
              None \<Rightarrow> Some (toUserScore video)
            | Some existingUser \<Rightarrow>
                if vs_score video > us_score existingUser \<or>
                   (vs_score video = us_score existingUser \<and> vs_likes video > us_likes existingUser)
                then Some (toUserScore video) else Some existingUser) \<and>
         (\<forall>u e. Map_get (userBestVideos scores) u = Some e \<longrightarrow>
            (\<exists>v \<in> set scores. e = toUserScore v \<and> vs_user_id v = u \<and>
               (\<forall>w \<in> set scores. vs_user_id w = u \<longrightarrow>
                  \<not> (vs_score w > vs_score v \<or> (vs_score w = vs_score v \<and> vs_likes w > vs_likes v))))) \<and>
         map (\<lambda>(k, e). (k, e\<lparr>us_views := 0\<rparr>)) (userBestVideos scores') =
           map (\<lambda>(k, e). (k, e\<lparr>us_views := 0\<rparr>)) (userBestVideos scores)"
proof -
  have one: "distinct (map fst (userBestVideos scores))"
    unfolding userBestVideos_def by (rule distinct_fold_bestStep) simp
  have keys: "fst ` set (userBestVideos scores) = vs_user_id ` set scores"
    by (simp add: userBestVideos_def keys_fold_bestStep)
  have best: "\<exists>v \<in> set scores. e = toUserScore v \<and> vs_user_id v = u \<and>
               (\<forall>w \<in> set scores. vs_user_id w = u \<longrightarrow>
                  \<not> (vs_score w > vs_score v \<or> (vs_score w = vs_score v \<and> vs_likes w > vs_likes v)))"
    if "Map_get (userBestVideos scores) u = Some e" for u e
  proof -
    from userBestVideos_first_best [OF that] obtain pre v post where
      d: "scores = pre @ v # post" "e = toUserScore v" "vs_user_id v = u"
         "\<forall>w \<in> set pre. vs_user_id w = u \<longrightarrow>
            vs_score v > vs_score w \<or> (vs_score v = vs_score w \<and> vs_likes v > vs_likes w)"
         "\<forall>w \<in> set post. vs_user_id w = u \<longrightarrow>
            \<not> (vs_score w > vs_score v \<or> (vs_score w = vs_score v \<and> vs_likes w > vs_likes v))"
      by blast
    have "\<forall>w \<in> set scores. vs_user_id w = u \<longrightarrow>
            \<not> (vs_score w > vs_score v \<or> (vs_score w = vs_score v \<and> vs_likes w > vs_likes v))"
    proof (intro ballI impI)
      fix w assume w: "w \<in> set scores" "vs_user_id w = u"
      then consider "w \<in> set pre" | "w = v" | "w \<in> set post"
        using d(1) by auto
      then show "\<not> (vs_score w > vs_score v \<or> (vs_score w = vs_score v \<and> vs_likes w > vs_likes v))"
      proof cases
        case 1
        with d(4) w(2) show ?thesis by fastforce
      next
        case 2
        then show ?thesis by simp
      next
        case 3
        with d(5) w(2) show ?thesis by blast
      qed
    qed
    moreover have "v \<in> set scores" using d(1) by simp
    ultimately show ?thesis using d(2,3) by blast
  qed
  have "map (\<lambda>(k, e). (k, e\<lparr>us_views := 0\<rparr>)) (userBestVideos scores') =
        userBestVideos (map (\<lambda>v. v\<lparr>vs_views := 0\<rparr>) scores')"
    by (simp add: userBestVideos_erase_views)
  also have "\<dots> = userBestVideos (map (\<lambda>v. v\<lparr>vs_views := 0\<rparr>) scores)"
    using assms by simp
  also have "\<dots> = map (\<lambda>(k, e). (k, e\<lparr>us_views := 0\<rparr>)) (userBestVideos scores)"
    by (simp add: userBestVideos_erase_views)
  finally have views: "map (\<lambda>(k, e). (k, e\<lparr>us_views := 0\<rparr>)) (userBestVideos scores') =
           map (\<lambda>(k, e). (k, e\<lparr>us_views := 0\<rparr>)) (userBestVideos scores)" .
  from one keys Map_get_bestStep_same [of video m] best views show ?thesis
    by blast
qed

theorem userBestVideos_one_per_user_score_then_likes_witness:
  "map (\<lambda>v. v\<lparr>vs_views := 0\<rparr>) ex_scores_other_views = map (\<lambda>v. v\<lparr>vs_views := 0\<rparr>) ex_scores \<and>
   distinct (map fst (userBestVideos ex_scores)) \<and>
   fst ` set (userBestVideos ex_scores) = vs_user_id ` set ex_scores \<and>
   Map_get (bestStep ex_candidate ex_map) (vs_user_id ex_candidate) = Some (toUserScore ex_candidate) \<and>
   map (\<lambda>(k, e). (k, e\<lparr>us_views := 0\<rparr>)) (userBestVideos ex_scores_other_views) =
     map (\<lambda>(k, e). (k, e\<lparr>us_views := 0\<rparr>)) (userBestVideos ex_scores) \<and>
   map (\<lambda>(k, e). (k, us_best_video_id e)) (userBestVideos ex_scores) = [(''u1'', ''b''), (''u2'', ''c'')] \<and>
   Map_get (userBestVideos ex_scores) ''u1'' = Some (toUserScore ex_candidate) \<and>
   (\<exists>v \<in> set ex_scores. toUserScore ex_candidate = toUserScore v \<and> vs_user_id v = ''u1'' \<and>
      (\<forall>w \<in> set ex_scores. vs_user_id w = ''u1'' \<longrightarrow>
         \<not> (vs_score w > vs_score v \<or> (vs_score w = vs_score v \<and> vs_likes w > vs_likes v))))"
proof -
  have h: "map (\<lambda>v. v\<lparr>vs_views := 0\<rparr>) ex_scores_other_views = map (\<lambda>v. v\<lparr>vs_views := 0\<rparr>) ex_scores"
    by (simp add: ex_scores_def ex_scores_other_views_def mkScore_def)
  note t = userBestVideos_one_per_user_score_then_likes [OF h, of ex_candidate ex_map]
  have c: "(case Map_get ex_map (vs_user_id ex_candidate) of
              None \<Rightarrow> Some (toUserScore ex_candidate)
            | Some existingUser \<Rightarrow>
                if vs_score ex_candidate > us_score existingUser \<or>
                   (vs_score ex_candidate = us_score existingUser \<and> vs_likes ex_candidate > us_likes existingUser)
                then Some (toUserScore ex_candidate) else Some existingUser) = Some (toUserScore ex_candidate)"
    by (simp add: ex_map_def ex_candidate_def Map_get_def mkScore_def toUserScore_def)
  have v: "map (\<lambda>(k, e). (k, us_best_video_id e)) (userBestVideos ex_scores) = [(''u1'', ''b''), (''u2'', ''c'')]"
    by code_simp
  have g: "Map_get (userBestVideos ex_scores) ''u1'' = Some (toUserScore ex_candidate)"
    by code_simp
  from t g have b: "\<exists>v \<in> set ex_scores. toUserScore ex_candidate = toUserScore v \<and> vs_user_id v = ''u1'' \<and>
      (\<forall>w \<in> set ex_scores. vs_user_id w = ''u1'' \<longrightarrow>
         \<not> (vs_score w > vs_score v \<or> (vs_score w = vs_score v \<and> vs_likes w > vs_likes v)))"
    by blast
  from t h c v g b show ?thesis by simp
qed



section \<open>Properties of the ranking assembler\<close>

lemma compareRanking_le_0:
  "compareRanking a b \<le> 0 \<longleftrightarrow>
     us_score a > us_score b \<or>
     (us_score a = us_score b \<and>
        (us_likes a > us_likes b \<or> (us_likes a = us_likes b \<and> us_views a \<ge> us_views b)))"
  by (auto simp: compareRanking_def)

lemma compareRanking_total: "compareRanking a b \<le> 0 \<or> compareRanking b a \<le> 0"
  by (auto simp: compareRanking_def)

lemma compareRanking_trans:
  "compareRanking a b \<le> 0 \<Longrightarrow> compareRanking b c \<le> 0 \<Longrightarrow> compareRanking a c \<le> 0"
  unfolding compareRanking_le_0 by linarith

lemma mset_insertBy: "mset (insertBy cmp x xs) = add_mset x (mset xs)"
  by (induction xs) auto

lemma mset_Array_sort: "mset (Array_sort cmp xs) = mset xs"
  unfolding Array_sort_def by (induction xs) (auto simp: mset_insertBy)

lemma set_insertBy: "set (insertBy cmp x xs) = insert x (set xs)"
  using mset_insertBy [of cmp x xs] by (metis set_mset_add_mset_insert set_mset_mset)

lemma sorted_insertBy_compareRanking:
  "sorted_wrt (\<lambda>a b. compareRanking a b \<le> 0) xs \<Longrightarrow>
   sorted_wrt (\<lambda>a b. compareRanking a b \<le> 0) (insertBy compareRanking x xs)"
proof (induction xs)
  case Nil
  then show ?case by simp
next
  case (Cons y ys)
  show ?case
  proof (cases "compareRanking x y \<le> 0")
    case True
    then have "\<forall>z \<in> set ys. compareRanking x z \<le> 0"
      using Cons.prems compareRanking_trans by auto
    with True Cons.prems show ?thesis by simp
  next
    case False
    then have "compareRanking y x \<le> 0"
      using compareRanking_total [of x y] by simp
    with False Cons show ?thesis
      by (auto simp: set_insertBy)
  qed
qed

lemma sorted_Array_sort_compareRanking:
  "sorted_wrt (\<lambda>a b. compareRanking a b \<le> 0) (Array_sort compareRanking xs)"
  unfolding Array_sort_def by (induction xs) (auto simp: sorted_insertBy_compareRanking)

lemma length_Array_sort: "length (Array_sort cmp xs) = length xs"
  using mset_Array_sort [of cmp xs] by (metis size_mset)

lemma length_leaderboardEntries: "length (leaderboardEntries clk rankings) = length rankings"
  by (simp add: leaderboardEntries_def)

lemma nth_leaderboardEntries:
  "i < length rankings \<Longrightarrow>
   leaderboardEntries clk rankings ! i =
     \<lparr> le_video_id = us_best_video_id (rankings ! i), le_score = us_score (rankings ! i),
       le_rank = int i + 1, le_created_at = clk i \<rparr>"
  by (simp add: leaderboardEntries_def nth_enumerate_eq)

lemma ranks_leaderboardEntries:
  "map le_rank (leaderboardEntries clk rankings) = map int [1..<length rankings + 1]"
proof (rule nth_equalityI)
  show "length (map le_rank (leaderboardEntries clk rankings)) = length (map int [1..<length rankings + 1])"
    by (simp add: length_leaderboardEntries del: upt_Suc)
next
  fix i assume "i < length (map le_rank (leaderboardEntries clk rankings))"
  then have i: "i < length rankings"
    by (simp add: length_leaderboardEntries)
  then have "map int [1..<length rankings + 1] ! i = int (1 + i)"
    by (simp del: upt_Suc)
  with i show "map le_rank (leaderboardEntries clk rankings) ! i = map int [1..<length rankings + 1] ! i"
    by (simp add: length_leaderboardEntries nth_leaderboardEntries del: upt_Suc)
qed

text \<open>
  Claim C3. The ranking assembler sorts the reduced per-user entries by score
  descending, then likes descending, then views descending: the sorted list is a
  rearrangement of the entries, and each entry is followed only by entries that it
  precedes or ties with in that order. Each entry gets as rank its 1-based position in
  the sorted list, so the ranks are \<open>1, ..., n\<close> without gaps, and tied entries
  still get distinct consecutive ranks.
\<close>

theorem userRankings_sorted_and_ranked_by_position:
  "mset (userRankings m) = mset (Map_values m) \<and>
   sorted_wrt (\<lambda>a b. us_score a > us_score b \<or>
                 (us_score a = us_score b \<and>
                    (us_likes a > us_likes b \<or>
                       (us_likes a = us_likes b \<and> us_views a \<ge> us_views b))))
     (userRankings m) \<and>
   length (leaderboardEntries clk (userRankings m)) = length m \<and>
   map le_rank (leaderboardEntries clk (userRankings m)) = map int [1..<length m + 1] \<and>
   (\<forall>i < length m.
      le_rank (leaderboardEntries clk (userRankings m) ! i) = int i + 1 \<and>
      le_video_id (leaderboardEntries clk (userRankings m) ! i) = us_best_video_id (userRankings m ! i) \<and>
      le_score (leaderboardEntries clk (userRankings m) ! i) = us_score (userRankings m ! i))"
proof -
  have len: "length (userRankings m) = length m"
    by (simp add: userRankings_def length_Array_sort Map_values_def)
  have perm: "mset (userRankings m) = mset (Map_values m)"
    by (simp add: userRankings_def mset_Array_sort)
  have "sorted_wrt (\<lambda>a b. compareRanking a b \<le> 0) (userRankings m)"
    by (simp add: userRankings_def sorted_Array_sort_compareRanking)
  then have sorted: "sorted_wrt (\<lambda>a b. us_score a > us_score b \<or>
                 (us_score a = us_score b \<and>
                    (us_likes a > us_likes b \<or>
                       (us_likes a = us_likes b \<and> us_views a \<ge> us_views b))))
     (userRankings m)"
    by (simp add: compareRanking_le_0)
  have ranks: "map le_rank (leaderboardEntries clk (userRankings m)) = map int [1..<length m + 1]"
    using ranks_leaderboardEntries [of clk "userRankings m"] by (simp add: len)
  have nth: "\<forall>i < length m.
      le_rank (leaderboardEntries clk (userRankings m) ! i) = int i + 1 \<and>
      le_video_id (leaderboardEntries clk (userRankings m) ! i) = us_best_video_id (userRankings m ! i) \<and>
      le_score (leaderboardEntries clk (userRankings m) ! i) = us_score (userRankings m ! i)"
    by (simp add: nth_leaderboardEntries len)
  from perm sorted ranks nth show ?thesis
    by (simp add: length_leaderboardEntries len)
qed

theorem userRankings_sorted_and_ranked_by_position_witness:
  "mset (userRankings ex_best) = mset (Map_values ex_best) \<and>
   length (leaderboardEntries ex_clock (userRankings ex_best)) = length ex_best \<and>
   map le_rank (leaderboardEntries ex_clock (userRankings ex_best)) = map int [1..<length ex_best + 1] \<and>
   (0::nat) < length ex_best \<and>
   le_rank (leaderboardEntries ex_clock (userRankings ex_best) ! 0) = int 0 + 1 \<and>
   le_video_id (leaderboardEntries ex_clock (userRankings ex_best) ! 0) = us_best_video_id (userRankings ex_best ! 0) \<and>
   map (\<lambda>e. (le_video_id e, le_score e, le_rank e)) (leaderboardEntries ex_clock (userRankings ex_best)) =
     [(''v2'', 50, 1), (''v3'', 50, 2), (''v1'', 50, 3)]"
proof -
  have l: "(0::nat) < length ex_best"
    by (simp add: ex_best_def)
  have v: "map (\<lambda>e. (le_video_id e, le_score e, le_rank e)) (leaderboardEntries ex_clock (userRankings ex_best)) =
     [(''v2'', 50, 1), (''v3'', 50, 2), (''v1'', 50, 3)]"
    by code_simp
  from userRankings_sorted_and_ranked_by_position [of ex_best ex_clock] l v show ?thesis
    by blast
qed

section \<open>Properties of the request handler\<close>

lemma Math_max_1_ge: "x \<in> set xs \<Longrightarrow> x \<le> Math_max_1 xs"
  unfolding Math_max_1_def by (induction xs) auto

lemma Math_max_1_ge_1: "1 \<le> Math_max_1 xs"
  unfolding Math_max_1_def by (induction xs) auto

lemma integerOf_of_int: "integerOf (Num (of_int n)) = n"
  by simp

lemma videoScores_scores_exact:
  assumes "video \<in> set videos"
  shows "calculateScore (Num (of_int (or0 (v_likes video)))) (Num (of_int (or0 (v_views video))))
           (Num (of_int (Math_max_1 (map (\<lambda>v. or0 (v_likes v)) videos))))
           (Num (of_int (Math_max_1 (map (\<lambda>v. or0 (v_views v)) videos)))) =
         Num (of_int (integerOf
           (calculateScore (Num (of_int (or0 (v_likes video)))) (Num (of_int (or0 (v_views video))))
              (Num (of_int (Math_max_1 (map (\<lambda>v. or0 (v_likes v)) videos))))
              (Num (of_int (Math_max_1 (map (\<lambda>v. or0 (v_views v)) videos))))))) \<and>
         0 \<le> integerOf
           (calculateScore (Num (of_int (or0 (v_likes video)))) (Num (of_int (or0 (v_views video))))
              (Num (of_int (Math_max_1 (map (\<lambda>v. or0 (v_likes v)) videos))))
              (Num (of_int (Math_max_1 (map (\<lambda>v. or0 (v_views v)) videos))))) \<and>
         integerOf
           (calculateScore (Num (of_int (or0 (v_likes video)))) (Num (of_int (or0 (v_views video))))
              (Num (of_int (Math_max_1 (map (\<lambda>v. or0 (v_likes v)) videos))))
              (Num (of_int (Math_max_1 (map (\<lambda>v. or0 (v_views v)) videos))))) \<le> 100"
proof -
  from assms have "or0 (v_likes video) \<le> Math_max_1 (map (\<lambda>v. or0 (v_likes v)) videos)"
    by (intro Math_max_1_ge) simp
  then have l: "(of_int (or0 (v_likes video)) :: rat) \<le> of_int (Math_max_1 (map (\<lambda>v. or0 (v_likes v)) videos))"
    by (simp only: of_int_le_iff)
  from assms have "or0 (v_views video) \<le> Math_max_1 (map (\<lambda>v. or0 (v_views v)) videos)"
    by (intro Math_max_1_ge) simp
  then have v: "(of_int (or0 (v_views video)) :: rat) \<le> of_int (Math_max_1 (map (\<lambda>v. or0 (v_views v)) videos))"
    by (simp only: of_int_le_iff)
  from calculateScore_of_counts [OF l v] obtain n where
    "calculateScore (Num (of_int (or0 (v_likes video)))) (Num (of_int (or0 (v_views video))))
           (Num (of_int (Math_max_1 (map (\<lambda>v. or0 (v_likes v)) videos))))
           (Num (of_int (Math_max_1 (map (\<lambda>v. or0 (v_views v)) videos)))) = Num (of_int n)"
    "0 \<le> n" "n \<le> 100"
    by blast
  then show ?thesis by simp
qed

lemma serve_empty:
  "fetch_result env = Inr None \<or> fetch_result env = Inr (Some []) \<Longrightarrow>
   serve POST env table =
     \<lparr> response = NoVideosFound ''No videos found'' 0, statements = [SelectVideos], leaderboard = table \<rparr>"
  by (auto simp: serve_def)

text \<open>
  Claim C4, as stated: on a corpus with zero videos the job publishes an empty
  leaderboard, so that the persisted leaderboard ends up with no entries. The handler
  returns before the delete when the select gives no rows: a leaderboard that had a row
  still has it afterwards.
\<close>

theorem serve_empty_corpus_not_cleared:
  "leaderboard (serve POST (ex_env (Inr (Some []))) [ex_old_row]) = [ex_old_row] \<and>
   leaderboard (serve POST (ex_env (Inr (Some []))) [ex_old_row]) \<noteq> []"
  by (simp add: serve_def ex_env_def)

text \<open>
  Claim C4, amended. When the leaderboard job runs against a corpus with zero videos
  (the select gives no rows, or null), it does not fail: it answers with status 200 and
  \<open>updated = 0\<close>, and it sends neither the delete nor the insert, so the persisted
  leaderboard is left exactly as it was.
\<close>

theorem serve_empty_corpus_leaves_leaderboard:
  assumes "fetch_result env = Inr None \<or> fetch_result env = Inr (Some [])"
  shows "status (response (serve POST env table)) = 200 \<and>
         updated (response (serve POST env table)) = Some 0 \<and>
         response (serve POST env table) = NoVideosFound ''No videos found'' 0 \<and>
         statements (serve POST env table) = [SelectVideos] \<and>
         leaderboard (serve POST env table) = table"
  using serve_empty [OF assms] by simp

theorem serve_empty_corpus_leaves_leaderboard_witness:
  "(fetch_result (ex_env (Inr (Some []))) = Inr None \<or>
    fetch_result (ex_env (Inr (Some []))) = Inr (Some [])) \<and>
   status (response (serve POST (ex_env (Inr (Some []))) [ex_old_row])) = 200 \<and>
   updated (response (serve POST (ex_env (Inr (Some []))) [ex_old_row])) = Some 0 \<and>
   statements (serve POST (ex_env (Inr (Some []))) [ex_old_row]) = [SelectVideos] \<and>
   leaderboard (serve POST (ex_env (Inr (Some []))) [ex_old_row]) = [ex_old_row]"
proof -
  have h: "fetch_result (ex_env (Inr (Some []))) = Inr None \<or>
           fetch_result (ex_env (Inr (Some []))) = Inr (Some [])"
    by (simp add: ex_env_def)
  from h serve_empty_corpus_leaves_leaderboard [OF h, of "[ex_old_row]"] show ?thesis
    by blast
qed

lemma publish_cases:
  "(\<exists>msg. spread_error env (length videos + 1) = Some msg \<and>
      publish env videos table =
        \<lparr> response = InternalError (errorMessage msg) (clock env 0), statements = [SelectVideos],
          leaderboard = table \<rparr>) \<or>
   (spread_error env (length videos + 1) = None \<and>
      (statements (publish env videos table) = [SelectVideos, DeleteLeaderboard] \<or>
       statements (publish env videos table) =
         [SelectVideos, DeleteLeaderboard,
          InsertLeaderboard (leaderboardEntries (clock env) (userRankings (userBestVideos (videoScores videos))))]) \<and>
      (leaderboard (publish env videos table) = table \<or>
       leaderboard (publish env videos table) = deleteRows table \<or>
       leaderboard (publish env videos table) =
         insertRows (fresh_id env)
           (leaderboardEntries (clock env) (userRankings (userBestVideos (videoScores videos))))
           (deleteRows table)))"
  by (simp add: publish_def Let_def split: option.splits)

lemma serve_cases:
  "(verb = OPTIONS \<and> serve verb env table = \<lparr> response = Preflight, statements = [], leaderboard = table \<rparr>) \<or>
   (\<exists>err. fetch_result env = Inl err \<and>
      serve verb env table =
        \<lparr> response = InternalError (errorMessage err) (clock env 0), statements = [SelectVideos],
          leaderboard = table \<rparr>) \<or>
   ((fetch_result env = Inr None \<or> fetch_result env = Inr (Some [])) \<and>
      serve verb env table =
        \<lparr> response = NoVideosFound ''No videos found'' 0, statements = [SelectVideos],
          leaderboard = table \<rparr>) \<or>
   (\<exists>videos. fetch_result env = Inr (Some videos) \<and> videos \<noteq> [] \<and>
      serve verb env table = publish env videos table)"
  by (cases verb; cases "fetch_result env") (auto simp: serve_def split: option.splits)

text \<open>
  Claim C5. If the read of the video corpus fails, the run aborts before any
  destructive step: the only statement sent is the select, the answer is the error with
  status 500, and the persisted leaderboard is unchanged. The same holds when the
  computation throws before the delete. In every run, the delete is sent only after the
  select has returned a non-empty corpus and nothing was thrown, and then the new
  entries are already computed from that corpus: they are exactly what the insert
  following the delete carries, and a changed leaderboard is the old one cleared, with
  or without the new entries.
\<close>

theorem serve_deletes_only_with_entries_ready:
  "(\<forall>err. fetch_result env = Inl err \<longrightarrow>
      serve POST env table =
        \<lparr> response = InternalError (errorMessage err) (clock env 0), statements = [SelectVideos],
          leaderboard = table \<rparr> \<and>
      status (response (serve POST env table)) = 500) \<and>
   (\<forall>videos msg. fetch_result env = Inr (Some videos) \<and> videos \<noteq> [] \<and>
      spread_error env (length videos + 1) = Some msg \<longrightarrow>
      serve POST env table =
        \<lparr> response = InternalError (errorMessage msg) (clock env 0), statements = [SelectVideos],
          leaderboard = table \<rparr>) \<and>
   (DeleteLeaderboard \<in> set (statements (serve verb env table)) \<or>
    leaderboard (serve verb env table) \<noteq> table \<longrightarrow>
      (\<exists>videos. fetch_result env = Inr (Some videos) \<and> videos \<noteq> [] \<and>
         spread_error env (length videos + 1) = None \<and>
         (statements (serve verb env table) = [SelectVideos, DeleteLeaderboard] \<or>
          statements (serve verb env table) =
            [SelectVideos, DeleteLeaderboard,
             InsertLeaderboard (leaderboardEntries (clock env) (userRankings (userBestVideos (videoScores videos))))]) \<and>
         (leaderboard (serve verb env table) = table \<or>
          leaderboard (serve verb env table) = deleteRows table \<or>
          leaderboard (serve verb env table) =
            insertRows (fresh_id env)
              (leaderboardEntries (clock env) (userRankings (userBestVideos (videoScores videos))))
              (deleteRows table))))"
proof -
  have a: "\<forall>err. fetch_result env = Inl err \<longrightarrow>
      serve POST env table =
        \<lparr> response = InternalError (errorMessage err) (clock env 0), statements = [SelectVideos],
          leaderboard = table \<rparr> \<and>
      status (response (serve POST env table)) = 500"
    by (simp add: serve_def)
  have t: "\<forall>videos msg. fetch_result env = Inr (Some videos) \<and> videos \<noteq> [] \<and>
      spread_error env (length videos + 1) = Some msg \<longrightarrow>
      serve POST env table =
        \<lparr> response = InternalError (errorMessage msg) (clock env 0), statements = [SelectVideos],
          leaderboard = table \<rparr>"
    by (simp add: serve_def publish_def)
  have b: "\<exists>videos. fetch_result env = Inr (Some videos) \<and> videos \<noteq> [] \<and>
         spread_error env (length videos + 1) = None \<and>
         (statements (serve verb env table) = [SelectVideos, DeleteLeaderboard] \<or>
          statements (serve verb env table) =
            [SelectVideos, DeleteLeaderboard,
             InsertLeaderboard (leaderboardEntries (clock env) (userRankings (userBestVideos (videoScores videos))))]) \<and>
         (leaderboard (serve verb env table) = table \<or>
          leaderboard (serve verb env table) = deleteRows table \<or>
          leaderboard (serve verb env table) =
            insertRows (fresh_id env)
              (leaderboardEntries (clock env) (userRankings (userBestVideos (videoScores videos))))
              (deleteRows table))"
    if h: "DeleteLeaderboard \<in> set (statements (serve verb env table)) \<or>
           leaderboard (serve verb env table) \<noteq> table"
  proof -
    from serve_cases [of verb env table] h obtain videos where
      v: "fetch_result env = Inr (Some videos)" "videos \<noteq> []"
         "serve verb env table = publish env videos table"
      by auto
    from h v(3) publish_cases [of env videos table]
    have "spread_error env (length videos + 1) = None \<and>
      (statements (publish env videos table) = [SelectVideos, DeleteLeaderboard] \<or>
       statements (publish env videos table) =
         [SelectVideos, DeleteLeaderboard,
          InsertLeaderboard (leaderboardEntries (clock env) (userRankings (userBestVideos (videoScores videos))))]) \<and>
      (leaderboard (publish env videos table) = table \<or>
       leaderboard (publish env videos table) = deleteRows table \<or>
       leaderboard (publish env videos table) =
         insertRows (fresh_id env)
           (leaderboardEntries (clock env) (userRankings (userBestVideos (videoScores videos))))
           (deleteRows table))"
      by auto
    with v show ?thesis by auto
  qed
  from a t b show ?thesis by blast
qed

lemma ex_videos_scores:
  "calculateScore (Num 0) (Num 5) (Num 4) (Num 5) = Num 30"
  "calculateScore (Num 3) (Num 3) (Num 4) (Num 5) = Num 70"
  "calculateScore (Num 4) (Num 0) (Num 4) (Num 5) = Num 70"
  by code_simp+

lemma videoScores_ex_videos:
  "videoScores ex_videos =
     [mkScore ''a'' ''u1'' 30 0 5, mkScore ''b'' ''u2'' 70 3 3, mkScore ''c'' ''u3'' 70 4 0]"
  by (simp add: videoScores_def ex_videos_def mkVideo_def mkScore_def Math_max_1_def or0_def
        usernameOf_def avatarOf_def ex_videos_scores)

theorem serve_deletes_only_with_entries_ready_witness:
  "fetch_result (ex_env (Inl ''boom'')) = Inl ''boom'' \<and>
   serve POST (ex_env (Inl ''boom'')) [ex_old_row] =
     \<lparr> response = InternalError (errorMessage ''boom'') (clock (ex_env (Inl ''boom'')) 0),
       statements = [SelectVideos], leaderboard = [ex_old_row] \<rparr> \<and>
   status (response (serve POST (ex_env (Inl ''boom'')) [ex_old_row])) = 500 \<and>
   fetch_result (ex_env_small_stack (Inr (Some ex_videos))) = Inr (Some ex_videos) \<and>
   ex_videos \<noteq> [] \<and>
   spread_error (ex_env_small_stack (Inr (Some ex_videos))) (length ex_videos + 1) = Some ''Maximum call stack size exceeded'' \<and>
   statements (serve POST (ex_env_small_stack (Inr (Some ex_videos))) [ex_old_row]) = [SelectVideos] \<and>
   leaderboard (serve POST (ex_env_small_stack (Inr (Some ex_videos))) [ex_old_row]) = [ex_old_row] \<and>
   DeleteLeaderboard \<in> set (statements (serve POST (ex_env (Inr (Some ex_videos))) [ex_old_row])) \<and>
   (\<exists>videos. fetch_result (ex_env (Inr (Some ex_videos))) = Inr (Some videos) \<and> videos \<noteq> [] \<and>
      (statements (serve POST (ex_env (Inr (Some ex_videos))) [ex_old_row]) = [SelectVideos, DeleteLeaderboard] \<or>
       statements (serve POST (ex_env (Inr (Some ex_videos))) [ex_old_row]) =
         [SelectVideos, DeleteLeaderboard,
          InsertLeaderboard (leaderboardEntries (clock (ex_env (Inr (Some ex_videos))))
            (userRankings (userBestVideos (videoScores videos))))])) \<and>
   map (\<lambda>e. (le_video_id e, le_score e, le_rank e))
     (leaderboardEntries ex_clock (userRankings (userBestVideos (videoScores ex_videos)))) =
     [(''c'', 70, 1), (''b'', 70, 2), (''a'', 30, 3)]"
proof -
  have f: "fetch_result (ex_env (Inl ''boom'')) = Inl ''boom''"
    by (simp add: ex_env_def)
  have g: "fetch_result (ex_env_small_stack (Inr (Some ex_videos))) = Inr (Some ex_videos)"
    by (simp add: ex_env_small_stack_def)
  have n: "ex_videos \<noteq> []"
    by (simp add: ex_videos_def)
  have r: "spread_error (ex_env_small_stack (Inr (Some ex_videos))) (length ex_videos + 1) =
           Some ''Maximum call stack size exceeded''"
    by (simp add: ex_env_small_stack_def)
  have d: "DeleteLeaderboard \<in> set (statements (serve POST (ex_env (Inr (Some ex_videos))) [ex_old_row]))"
    by (simp add: serve_def publish_def ex_env_def ex_spread_error_def ex_videos_def Let_def)
  have v: "map (\<lambda>e. (le_video_id e, le_score e, le_rank e))
     (leaderboardEntries ex_clock (userRankings (userBestVideos (videoScores ex_videos)))) =
     [(''c'', 70, 1), (''b'', 70, 2), (''a'', 30, 3)]"
    unfolding videoScores_ex_videos by code_simp
  note t1 = serve_deletes_only_with_entries_ready [of "ex_env (Inl ''boom'')" "[ex_old_row]" POST]
  note t2 = serve_deletes_only_with_entries_ready [of "ex_env (Inr (Some ex_videos))" "[ex_old_row]" POST]
  note t3 = serve_deletes_only_with_entries_ready [of "ex_env_small_stack (Inr (Some ex_videos))" "[ex_old_row]" POST]
  from t1 f have a:
    "serve POST (ex_env (Inl ''boom'')) [ex_old_row] =
       \<lparr> response = InternalError (errorMessage ''boom'') (clock (ex_env (Inl ''boom'')) 0),
         statements = [SelectVideos], leaderboard = [ex_old_row] \<rparr> \<and>
     status (response (serve POST (ex_env (Inl ''boom'')) [ex_old_row])) = 500"
    by blast
  from t2 d have b:
    "\<exists>videos. fetch_result (ex_env (Inr (Some ex_videos))) = Inr (Some videos) \<and> videos \<noteq> [] \<and>
      (statements (serve POST (ex_env (Inr (Some ex_videos))) [ex_old_row]) = [SelectVideos, DeleteLeaderboard] \<or>
       statements (serve POST (ex_env (Inr (Some ex_videos))) [ex_old_row]) =
         [SelectVideos, DeleteLeaderboard,
          InsertLeaderboard (leaderboardEntries (clock (ex_env (Inr (Some ex_videos))))
            (userRankings (userBestVideos (videoScores videos))))])"
    by blast
  from t3 g n r have "serve POST (ex_env_small_stack (Inr (Some ex_videos))) [ex_old_row] =
        \<lparr> response = InternalError (errorMessage ''Maximum call stack size exceeded'')
                       (clock (ex_env_small_stack (Inr (Some ex_videos))) 0),
          statements = [SelectVideos], leaderboard = [ex_old_row] \<rparr>"
    by blast
  then have c: "statements (serve POST (ex_env_small_stack (Inr (Some ex_videos))) [ex_old_row]) = [SelectVideos] \<and>
     leaderboard (serve POST (ex_env_small_stack (Inr (Some ex_videos))) [ex_old_row]) = [ex_old_row]"
    by simp
  from f a g n r c d b v show ?thesis by blast
qed

section \<open>Properties of the optimistic like and unlike\<close>

lemma danceVideos_onSettled: "danceVideos (onSettled s) = danceVideos s"
  by (simp add: onSettled_def)

lemma danceVideos_onError_snapshot:
  "danceVideos (onError ident (Some \<lparr> previousVideos = Some videos, previousLikedState = b \<rparr>) s) = Some videos"
  by (simp add: onError_def Let_def)

lemma danceVideos_onError_no_snapshot:
  "context = None \<or> (\<exists>b. context = Some \<lparr> previousVideos = None, previousLikedState = b \<rparr>) \<Longrightarrow>
   danceVideos (onError ident context s) = danceVideos s"
  by (auto simp: onError_def Let_def)

text \<open>
  Claim C6. For every like or unlike mutation whose remote call fails, after settlement
  (\<^verbatim>\<open>onError\<close>, then \<^verbatim>\<open>onSettled\<close>) the cached videos are exactly the
  snapshot captured before the optimistic mutation was applied; so every cached
  video's likes count and \<open>liked_by\<close> are the snapshot's. When a user is signed in and
  the cache holds videos, this holds whatever other callbacks did to the cache while the
  remote call was in flight; in the remaining cases (no snapshot is taken, or the
  snapshot is of an empty cache) nothing was applied optimistically and the cache is
  the one before the mutation.
\<close>

theorem failedMutation_restores_snapshot:
  "danceVideos (failedMutation ident act (\<lambda>s1. s1) s) = danceVideos s \<and>
   (\<forall>uid videos. user s = Some uid \<and> danceVideos s = Some videos \<longrightarrow>
      danceVideos (failedMutation ident act between s) = Some videos \<and>
      map dv_likes (the (danceVideos (failedMutation ident act between s))) = map dv_likes videos \<and>
      map dv_liked_by (the (danceVideos (failedMutation ident act between s))) = map dv_liked_by videos)"
proof -
  have a: "danceVideos (failedMutation ident act (\<lambda>s1. s1) s) = danceVideos s"
  proof (cases "user s")
    case None
    then show ?thesis
      by (simp add: failedMutation_def onMutate_def onError_def onSettled_def Let_def)
  next
    case (Some uid)
    then show ?thesis
      by (cases "danceVideos s")
         (simp_all add: failedMutation_def onMutate_def onError_def onSettled_def optimisticUpdate_def Let_def)
  qed
  have b: "danceVideos (failedMutation ident act between s) = Some videos"
    if "user s = Some uid" "danceVideos s = Some videos" for uid videos
    using that
    by (simp add: failedMutation_def onMutate_def danceVideos_onSettled danceVideos_onError_snapshot)
  from a b show ?thesis by simp
qed

theorem failedMutation_restores_snapshot_witness:
  "user ex_home = Some ''me'' \<and>
   danceVideos ex_home =
     Some [mkDance ''v1'' 3 (Some [''you'']), mkDance ''v2'' 0 (Some [''me'']), mkDance ''v3'' 7 None] \<and>
   danceVideos (failedMutation ''v1'' like ex_other_tap ex_home) =
     Some [mkDance ''v1'' 3 (Some [''you'']), mkDance ''v2'' 0 (Some [''me'']), mkDance ''v3'' 7 None] \<and>
   map dv_likes (the (danceVideos (failedMutation ''v1'' like ex_other_tap ex_home))) = [3, 0, 7] \<and>
   danceVideos (snd (onMutate ''v1'' like ex_home)) \<noteq> danceVideos ex_home"
proof -
  have u: "user ex_home = Some ''me''"
    by (simp add: ex_home_def)
  have c: "danceVideos ex_home =
     Some [mkDance ''v1'' 3 (Some [''you'']), mkDance ''v2'' 0 (Some [''me'']), mkDance ''v3'' 7 None]"
    by (simp add: ex_home_def)
  have l: "map dv_likes [mkDance ''v1'' 3 (Some [''you'']), mkDance ''v2'' 0 (Some [''me'']), mkDance ''v3'' 7 None] = [3, 0, 7]"
    by (simp add: mkDance_def)
  have o: "danceVideos (snd (onMutate ''v1'' like ex_home)) \<noteq> danceVideos ex_home"
    by code_simp
  from failedMutation_restores_snapshot [of "''v1''" like ex_home ex_other_tap] u c l o
  show ?thesis by simp
qed

lemma optimisticVideo_like:
  "optimisticVideo uid ident like video =
     (if dv_id video = ident \<and> uid \<notin> set (case dv_liked_by video of None \<Rightarrow> [] | Some l \<Rightarrow> l)
      then video\<lparr> dv_likes := dv_likes video + 1,
                  dv_liked_by := Some ((case dv_liked_by video of None \<Rightarrow> [] | Some l \<Rightarrow> l) @ [uid]) \<rparr>
      else video)"
  by (cases "dv_liked_by video") (simp_all add: optimisticVideo_def Let_def)

lemma optimisticVideo_dislike:
  "optimisticVideo uid ident dislike video =
     (if dv_id video = ident \<and> uid \<in> set (case dv_liked_by video of None \<Rightarrow> [] | Some l \<Rightarrow> l)
      then video\<lparr> dv_likes := max 0 (dv_likes video - 1),
                  dv_liked_by := Some (filter (\<lambda>u. u \<noteq> uid)
                                   (case dv_liked_by video of None \<Rightarrow> [] | Some l \<Rightarrow> l)) \<rparr>
      else video)"
  by (cases "dv_liked_by video") (simp_all add: optimisticVideo_def Let_def)

lemma optimisticVideo_like_noop:
  "uid \<in> set (case dv_liked_by video of None \<Rightarrow> [] | Some l \<Rightarrow> l) \<Longrightarrow>
   optimisticVideo uid ident like video = video"
  by (cases "dv_liked_by video") (simp_all add: optimisticVideo_like)

lemma optimisticVideo_dislike_noop:
  "uid \<notin> set (case dv_liked_by video of None \<Rightarrow> [] | Some l \<Rightarrow> l) \<Longrightarrow>
   optimisticVideo uid ident dislike video = video"
  by (cases "dv_liked_by video") (simp_all add: optimisticVideo_dislike)

lemma optimisticVideo_like_idem:
  "optimisticVideo uid ident like (optimisticVideo uid ident like video) =
   optimisticVideo uid ident like video"
  by (cases "dv_liked_by video") (simp_all add: optimisticVideo_like)

lemma optimisticVideo_like_likes:
  "dv_likes (optimisticVideo uid ident like video) \<le> dv_likes video + 1"
  by (cases "dv_liked_by video") (simp_all add: optimisticVideo_like)

lemma onMutate_user: "user (snd (onMutate ident act s)) = user s"
  by (simp add: onMutate_def split: option.splits)

lemma danceVideos_onMutate:
  "danceVideos (snd (onMutate ident act s)) =
     (case user s of None \<Rightarrow> danceVideos s
      | Some uid \<Rightarrow> optimisticUpdate uid ident act (danceVideos s))"
  by (simp add: onMutate_def split: option.splits)

text \<open>
  Claim C7. Applying the optimistic like to a video whose cached \<open>liked_by\<close>
  already holds the current user changes nothing in that video, in particular neither
  its likes count nor its \<open>liked_by\<close>; symmetrically the optimistic unlike changes
  nothing when the user is not in \<open>liked_by\<close>. So a second like in a row is a no-op,
  on the video and on the whole cache, and two likes in a row raise the likes count by
  at most one.
\<close>

theorem optimistic_like_twice_is_like_once:
  "(uid \<in> set (case dv_liked_by video of None \<Rightarrow> [] | Some l \<Rightarrow> l) \<longrightarrow>
      optimisticVideo uid ident like video = video) \<and>
   (uid \<notin> set (case dv_liked_by video of None \<Rightarrow> [] | Some l \<Rightarrow> l) \<longrightarrow>
      optimisticVideo uid ident dislike video = video) \<and>
   optimisticVideo uid ident like (optimisticVideo uid ident like video) =
     optimisticVideo uid ident like video \<and>
   dv_likes (optimisticVideo uid ident like (optimisticVideo uid ident like video)) \<le> dv_likes video + 1 \<and>
   danceVideos (snd (onMutate ident like (snd (onMutate ident like s)))) =
     danceVideos (snd (onMutate ident like s))"
proof -
  have "danceVideos (snd (onMutate ident like (snd (onMutate ident like s)))) =
        danceVideos (snd (onMutate ident like s))"
  proof (cases "user s")
    case None
    then show ?thesis by (simp add: danceVideos_onMutate onMutate_user)
  next
    case (Some u)
    then show ?thesis
      by (cases "danceVideos s")
         (simp_all add: danceVideos_onMutate onMutate_user optimisticUpdate_def optimisticVideo_like_idem)
  qed
  then show ?thesis
    using optimisticVideo_like_noop [of uid video ident] optimisticVideo_dislike_noop [of uid video ident]
      optimisticVideo_like_likes [of uid ident video]
    by (simp add: optimisticVideo_like_idem)
qed

theorem optimistic_like_twice_is_like_once_witness:
  "''me'' \<in> set (case dv_liked_by (mkDance ''v2'' 0 (Some [''me''])) of None \<Rightarrow> [] | Some l \<Rightarrow> l) \<and>
   optimisticVideo ''me'' ''v2'' like (mkDance ''v2'' 0 (Some [''me''])) = mkDance ''v2'' 0 (Some [''me'']) \<and>
   ''me'' \<notin> set (case dv_liked_by (mkDance ''v1'' 3 (Some [''you''])) of None \<Rightarrow> [] | Some l \<Rightarrow> l) \<and>
   optimisticVideo ''me'' ''v1'' dislike (mkDance ''v1'' 3 (Some [''you''])) = mkDance ''v1'' 3 (Some [''you'']) \<and>
   optimisticVideo ''me'' ''v1'' like (mkDance ''v1'' 3 (Some [''you''])) = mkDance ''v1'' 4 (Some [''you'', ''me'']) \<and>
   optimisticVideo ''me'' ''v1'' like (optimisticVideo ''me'' ''v1'' like (mkDance ''v1'' 3 (Some [''you'']))) =
     mkDance ''v1'' 4 (Some [''you'', ''me''])"
proof -
  have a: "''me'' \<in> set (case dv_liked_by (mkDance ''v2'' 0 (Some [''me''])) of None \<Rightarrow> [] | Some l \<Rightarrow> l)"
    by (simp add: mkDance_def)
  have b: "''me'' \<notin> set (case dv_liked_by (mkDance ''v1'' 3 (Some [''you''])) of None \<Rightarrow> [] | Some l \<Rightarrow> l)"
    by (simp add: mkDance_def)
  have c: "optimisticVideo ''me'' ''v1'' like (mkDance ''v1'' 3 (Some [''you''])) = mkDance ''v1'' 4 (Some [''you'', ''me''])"
    by (simp add: optimisticVideo_like mkDance_def)
  note t1 = optimistic_like_twice_is_like_once [of "''me''" "mkDance ''v2'' 0 (Some [''me''])" "''v2''" ex_home]
  note t2 = optimistic_like_twice_is_like_once [of "''me''" "mkDance ''v1'' 3 (Some [''you''])" "''v1''" ex_home]
  from t1 a have d: "optimisticVideo ''me'' ''v2'' like (mkDance ''v2'' 0 (Some [''me''])) = mkDance ''v2'' 0 (Some [''me''])"
    by blast
  from t2 b have e: "optimisticVideo ''me'' ''v1'' dislike (mkDance ''v1'' 3 (Some [''you''])) = mkDance ''v1'' 3 (Some [''you''])"
    by blast
  from t2 c have f: "optimisticVideo ''me'' ''v1'' like (optimisticVideo ''me'' ''v1'' like (mkDance ''v1'' 3 (Some [''you'']))) =
     mkDance ''v1'' 4 (Some [''you'', ''me''])"
    by simp
  from a b c d e f show ?thesis by blast
qed

lemma optimisticVideo_likes_nonneg:
  "0 \<le> dv_likes video \<Longrightarrow> 0 \<le> dv_likes (optimisticVideo uid ident act video)"
  by (cases act; cases "dv_liked_by video") (simp_all add: optimisticVideo_like optimisticVideo_dislike)

lemma onMutate_likes_nonneg:
  assumes "list_all (\<lambda>v. 0 \<le> dv_likes v) (case danceVideos s of None \<Rightarrow> [] | Some videos \<Rightarrow> videos)"
  shows "list_all (\<lambda>v. 0 \<le> dv_likes v)
           (case danceVideos (snd (onMutate ident act s)) of None \<Rightarrow> [] | Some videos \<Rightarrow> videos)"
proof (cases "user s")
  case None
  with assms show ?thesis by (simp add: danceVideos_onMutate)
next
  case (Some uid)
  with assms show ?thesis
    by (cases "danceVideos s")
       (auto simp: danceVideos_onMutate optimisticUpdate_def list_all_iff optimisticVideo_likes_nonneg)
qed

text \<open>
  Claim C10. The optimistic unlike clamps the cached likes count at zero: when it
  applies, the new count is \<open>max 0 (likes - 1)\<close>, which is non-negative whatever the
  old count was. So when the cached likes counts are non-negative, they are still
  non-negative for every cached video after every sequence of optimistic like and unlike
  applications.
\<close>

theorem optimistic_likes_stay_non_negative:
  assumes "list_all (\<lambda>v. 0 \<le> dv_likes v) (case danceVideos s of None \<Rightarrow> [] | Some videos \<Rightarrow> videos)"
  shows "list_all (\<lambda>v. 0 \<le> dv_likes v)
           (case danceVideos (applyAll ops s) of None \<Rightarrow> [] | Some videos \<Rightarrow> videos) \<and>
         (dv_id video = ident \<and> uid \<in> set (case dv_liked_by video of None \<Rightarrow> [] | Some l \<Rightarrow> l) \<longrightarrow>
            dv_likes (optimisticVideo uid ident dislike video) = max 0 (dv_likes video - 1) \<and>
            0 \<le> dv_likes (optimisticVideo uid ident dislike video))"
proof -
  have "list_all (\<lambda>v. 0 \<le> dv_likes v)
           (case danceVideos (applyAll ops s) of None \<Rightarrow> [] | Some videos \<Rightarrow> videos)"
    using assms
  proof (induction ops arbitrary: s)
    case Nil
    then show ?case by simp
  next
    case (Cons op ops)
    obtain ident' act where op: "op = (ident', act)" by (cases op)
    from Cons.prems have "list_all (\<lambda>v. 0 \<le> dv_likes v)
           (case danceVideos (snd (onMutate ident' act s)) of None \<Rightarrow> [] | Some videos \<Rightarrow> videos)"
      by (rule onMutate_likes_nonneg)
    from Cons.IH [OF this] show ?case by (simp add: op)
  qed
  moreover have "dv_id video = ident \<and> uid \<in> set (case dv_liked_by video of None \<Rightarrow> [] | Some l \<Rightarrow> l) \<longrightarrow>
            dv_likes (optimisticVideo uid ident dislike video) = max 0 (dv_likes video - 1) \<and>
            0 \<le> dv_likes (optimisticVideo uid ident dislike video)"
    by (cases "dv_liked_by video") (simp_all add: optimisticVideo_dislike)
  ultimately show ?thesis by blast
qed

theorem optimistic_likes_stay_non_negative_witness:
  "list_all (\<lambda>v. 0 \<le> dv_likes v) (case danceVideos ex_home of None \<Rightarrow> [] | Some videos \<Rightarrow> videos) \<and>
   list_all (\<lambda>v. 0 \<le> dv_likes v)
     (case danceVideos (applyAll ex_taps ex_home) of None \<Rightarrow> [] | Some videos \<Rightarrow> videos) \<and>
   dv_id (mkDance ''v2'' 0 (Some [''me''])) = ''v2'' \<and>
   ''me'' \<in> set (case dv_liked_by (mkDance ''v2'' 0 (Some [''me''])) of None \<Rightarrow> [] | Some l \<Rightarrow> l) \<and>
   dv_likes (optimisticVideo ''me'' ''v2'' dislike (mkDance ''v2'' 0 (Some [''me'']))) = max 0 (0 - 1) \<and>
   0 \<le> dv_likes (optimisticVideo ''me'' ''v2'' dislike (mkDance ''v2'' 0 (Some [''me'']))) \<and>
   map dv_likes (case danceVideos (applyAll ex_taps ex_home) of None \<Rightarrow> [] | Some videos \<Rightarrow> videos) = [4, 1, 7]"
proof -
  have h: "list_all (\<lambda>v. 0 \<le> dv_likes v) (case danceVideos ex_home of None \<Rightarrow> [] | Some videos \<Rightarrow> videos)"
    by (simp add: ex_home_def mkDance_def)
  have a: "dv_id (mkDance ''v2'' 0 (Some [''me''])) = ''v2''"
    by (simp add: mkDance_def)
  have b: "''me'' \<in> set (case dv_liked_by (mkDance ''v2'' 0 (Some [''me''])) of None \<Rightarrow> [] | Some l \<Rightarrow> l)"
    by (simp add: mkDance_def)
  have l: "dv_likes (mkDance ''v2'' 0 (Some [''me''])) = 0"
    by (simp add: mkDance_def)
  have v: "map dv_likes (case danceVideos (applyAll ex_taps ex_home) of None \<Rightarrow> [] | Some videos \<Rightarrow> videos) = [4, 1, 7]"
    by code_simp
  note t = optimistic_likes_stay_non_negative
             [OF h, of ex_taps "mkDance ''v2'' 0 (Some [''me''])" "''v2''" "''me''"]
  from t a b l have "dv_likes (optimisticVideo ''me'' ''v2'' dislike (mkDance ''v2'' 0 (Some [''me'']))) = max 0 (0 - 1) \<and>
   0 \<le> dv_likes (optimisticVideo ''me'' ''v2'' dislike (mkDance ''v2'' 0 (Some [''me''])))"
    by simp
  with t h a b v show ?thesis by blast
qed


end
